theory Spec2Isabelle
  imports Main
begin

section \<open>Dir2Txt: the traversal-and-filtering engine of \<^verbatim>\<open>dir2txt.go\<close> (v1.7.0)\<close>

text \<open>
  The development embeds the most recent version of the program contained in
  \<^verbatim>\<open>src/dir2txt.go\<close> (the part declaring \<^verbatim>\<open>version = "v1.7.0"\<close>): the filter engine
  \<^verbatim>\<open>checkFilter\<close>, the junk and asset tests, the content serializer \<^verbatim>\<open>processFile\<close>,
  the symlink-following walker \<^verbatim>\<open>walkFollowSymlinks\<close>, the tree renderer \<^verbatim>\<open>writeTree\<close>
  and the aggregator \<^verbatim>\<open>processDirs\<close>.

  Go strings and byte slices are byte sequences, modelled as \<^typ>\<open>string\<close> (a list of
  8-bit characters). The operating system is a record of functions (directory listing,
  symlink resolution, stat, file read), the global \<^verbatim>\<open>config\<close> is a record passed
  explicitly, and the two output streams (the buffered document writer and standard
  output) are lists that the functions extend.
\<close>

subsection \<open>Package \<^verbatim>\<open>unicode/utf8\<close>\<close>

text \<open>
  Modelled from the spec: the Go standard library is not among the sources of the
  repository. The functions of the packages \<^verbatim>\<open>unicode/utf8\<close>, \<^verbatim>\<open>strings\<close>,
  \<^verbatim>\<open>path/filepath\<close> and \<^verbatim>\<open>path\<close> that the embedded code calls are defined here after the
  library, on byte strings. A rune is an \<^typ>\<open>int\<close> (Go's \<^verbatim>\<open>int32\<close>), and so is the
  value of a byte where the library computes with it.

  \<^verbatim>\<open>utf8.DecodeRuneInString\<close> returns the first rune of a string and the number of bytes
  it takes; for an empty string \<^verbatim>\<open>(RuneError, 0)\<close>, for bytes that do not start a
  well-formed encoding (overlong forms, surrogates and values above U+10FFFF included)
  \<^verbatim>\<open>(RuneError, 1)\<close>. \<open>decode2\<close>, \<open>decode3\<close> and \<open>decode4\<close> are its cases for the
  encodings of two, three and four bytes, \<open>decodeLead\<close> the choice by the first byte.
\<close>

definition RuneError :: int where
  "RuneError = 0xFFFD"

definition byteIn :: "int \<Rightarrow> int \<Rightarrow> char \<Rightarrow> bool" where
  "byteIn lo hi c \<longleftrightarrow> lo \<le> of_char c \<and> (of_char c :: int) \<le> hi"

definition lowBits :: "char \<Rightarrow> int" where
  "lowBits c = (of_char c :: int) mod 64"

definition decode2 :: "int \<Rightarrow> string \<Rightarrow> int \<times> nat" where
  "decode2 x bs =
     (case bs of
        c1 # r \<Rightarrow>
          if byteIn 0x80 0xBF c1 then (x mod 32 * 64 + lowBits c1, 2) else (RuneError, 1)
      | _ \<Rightarrow> (RuneError, 1))"

definition decode3 :: "int \<Rightarrow> string \<Rightarrow> int \<times> nat" where
  "decode3 x bs =
     (case bs of
        c1 # c2 # r \<Rightarrow>
          if byteIn (if x = 0xE0 then 0xA0 else 0x80) (if x = 0xED then 0x9F else 0xBF) c1
             \<and> byteIn 0x80 0xBF c2
          then (x mod 16 * 4096 + lowBits c1 * 64 + lowBits c2, 3) else (RuneError, 1)
      | _ \<Rightarrow> (RuneError, 1))"

definition decode4 :: "int \<Rightarrow> string \<Rightarrow> int \<times> nat" where
  "decode4 x bs =
     (case bs of
        c1 # c2 # c3 # r \<Rightarrow>
          if byteIn (if x = 0xF0 then 0x90 else 0x80) (if x = 0xF4 then 0x8F else 0xBF) c1
             \<and> byteIn 0x80 0xBF c2 \<and> byteIn 0x80 0xBF c3
          then (x mod 8 * 262144 + lowBits c1 * 4096 + lowBits c2 * 64 + lowBits c3, 4)
          else (RuneError, 1)
      | _ \<Rightarrow> (RuneError, 1))"

definition decodeLead :: "int \<Rightarrow> string \<Rightarrow> int \<times> nat" where
  "decodeLead x bs =
     (if x < 0x80 then (x, 1)
      else if 0xC2 \<le> x \<and> x \<le> 0xDF then decode2 x bs
      else if 0xE0 \<le> x \<and> x \<le> 0xEF then decode3 x bs
      else if 0xF0 \<le> x \<and> x \<le> 0xF4 then decode4 x bs
      else (RuneError, 1))"

definition DecodeRuneInString :: "string \<Rightarrow> int \<times> nat" where
  "DecodeRuneInString s =
     (case s of [] \<Rightarrow> (RuneError, 0) | b # bs \<Rightarrow> decodeLead (of_char b) bs)"

text \<open>
  \<^verbatim>\<open>utf8.EncodeRune\<close> (and \<^verbatim>\<open>AppendRune\<close>): the bytes of a rune; a negative rune, a
  surrogate and a rune above U+10FFFF are written as U+FFFD.
\<close>

definition EncodeRune :: "int \<Rightarrow> string" where
  "EncodeRune r =
     (if r < 0 \<or> 0x10FFFF < r \<or> (0xD800 \<le> r \<and> r \<le> 0xDFFF) then [CHR 0xEF, CHR 0xBF, CHR 0xBD]
      else if r \<le> 0x7F then [char_of r]
      else if r \<le> 0x7FF then [char_of (0xC0 + r div 64), char_of (0x80 + r mod 64)]
      else if r \<le> 0xFFFF then
        [char_of (0xE0 + r div 4096), char_of (0x80 + r div 64 mod 64), char_of (0x80 + r mod 64)]
      else
        [char_of (0xF0 + r div 262144), char_of (0x80 + r div 4096 mod 64),
         char_of (0x80 + r div 64 mod 64), char_of (0x80 + r mod 64)])"

text \<open>
  \<^verbatim>\<open>utf8.Valid\<close> accepts the well-formed byte sequences of UTF-8: no overlong forms, no
  surrogates, nothing above U+10FFFF.
\<close>

fun utf8_Valid :: "string \<Rightarrow> bool" where
  "utf8_Valid [] = True"
| "utf8_Valid (b # bs) =
     (let x = (of_char b :: int) in
      if x < 0x80 then utf8_Valid bs
      else if 0xC2 \<le> x \<and> x \<le> 0xDF then
        (case bs of
           c1 # r \<Rightarrow> byteIn 0x80 0xBF c1 \<and> utf8_Valid r
         | _ \<Rightarrow> False)
      else if 0xE0 \<le> x \<and> x \<le> 0xEF then
        (case bs of
           c1 # c2 # r \<Rightarrow>
             byteIn (if x = 0xE0 then 0xA0 else 0x80) (if x = 0xED then 0x9F else 0xBF) c1
             \<and> byteIn 0x80 0xBF c2 \<and> utf8_Valid r
         | _ \<Rightarrow> False)
      else if 0xF0 \<le> x \<and> x \<le> 0xF4 then
        (case bs of
           c1 # c2 # c3 # r \<Rightarrow>
             byteIn (if x = 0xF0 then 0x90 else 0x80) (if x = 0xF4 then 0x8F else 0xBF) c1
             \<and> byteIn 0x80 0xBF c2 \<and> byteIn 0x80 0xBF c3 \<and> utf8_Valid r
         | _ \<Rightarrow> False)
      else False)"

text \<open>
  The runes that \<^verbatim>\<open>for _, c := range s\<close> goes through: every byte that does not start
  a well-formed encoding gives one \<^verbatim>\<open>RuneError\<close>.
\<close>

fun runes :: "string \<Rightarrow> int list" where
  "runes [] = []"
| "runes (b # bs) =
     fst (DecodeRuneInString (b # bs)) # runes (drop (snd (DecodeRuneInString (b # bs)) - 1) bs)"

subsection \<open>Package \<^verbatim>\<open>strings\<close>\<close>

definition HasPrefix :: "string \<Rightarrow> string \<Rightarrow> bool" where
  "HasPrefix s pre \<longleftrightarrow> length s \<ge> length pre \<and> take (length pre) s = pre"

definition HasSuffix :: "string \<Rightarrow> string \<Rightarrow> bool" where
  "HasSuffix s suf \<longleftrightarrow> length s \<ge> length suf \<and> drop (length s - length suf) s = suf"

definition TrimPrefix :: "string \<Rightarrow> string \<Rightarrow> string" where
  "TrimPrefix s pre = (if HasPrefix s pre then drop (length pre) s else s)"

definition TrimSuffix :: "string \<Rightarrow> string \<Rightarrow> string" where
  "TrimSuffix s suf = (if HasSuffix s suf then take (length s - length suf) s else s)"

text \<open>
  \<^verbatim>\<open>strings.ToLower\<close> has two paths. A string of ASCII bytes only has its letters
  \<^verbatim>\<open>A\<close> to \<^verbatim>\<open>Z\<close> replaced, byte by byte (\<open>lowerChar\<close>). Any other string goes through
  \<^verbatim>\<open>strings.Map(unicode.ToLower, s)\<close>, which decodes the runes of the string, maps each
  one and encodes the results; a byte that is not part of a well-formed encoding comes
  out as U+FFFD. \<^verbatim>\<open>unicode.ToLower\<close> treats the ASCII runes itself and looks every other
  rune up in the case tables of package \<^verbatim>\<open>unicode\<close>. These tables are data of the
  library; the lookup \<^verbatim>\<open>unicode.To(unicode.LowerCase, r)\<close> is the parameter \<open>toLowerCase\<close>.
\<close>

definition lowerChar :: "char \<Rightarrow> char" where
  "lowerChar c = (let n = (of_char c :: int) in
     if 65 \<le> n \<and> n \<le> 90 then char_of (n + 32) else c)"

definition unicode_ToLower :: "(int \<Rightarrow> int) \<Rightarrow> int \<Rightarrow> int" where
  "unicode_ToLower toLowerCase r =
     (if r \<le> 0x7F then (if 0x41 \<le> r \<and> r \<le> 0x5A then r + 32 else r) else toLowerCase r)"

definition Map :: "(int \<Rightarrow> int) \<Rightarrow> string \<Rightarrow> string" where
  "Map mapping s = concat (map (\<lambda>c. if mapping c \<ge> 0 then EncodeRune (mapping c) else []) (runes s))"

definition ToLower :: "(int \<Rightarrow> int) \<Rightarrow> string \<Rightarrow> string" where
  "ToLower toLowerCase s =
     (if list_all (\<lambda>c. (of_char c :: int) < 0x80) s then map lowerChar s
      else Map (unicode_ToLower toLowerCase) s)"

subsection \<open>Package \<^verbatim>\<open>path/filepath\<close>, for the builds whose separator is the slash\<close>

definition Separator :: char where
  "Separator = CHR ''/''"

definition ToSlash :: "string \<Rightarrow> string" where
  "ToSlash path = (if Separator = CHR ''/'' then path
     else map (\<lambda>c. if c = Separator then CHR ''/'' else c) path)"

text \<open>
  Modelled from the spec: \<^verbatim>\<open>filepath.Base\<close>, the last element of the path, trailing
  separators removed first; \<^verbatim>\<open>.\<close> for the empty path and the separator for a path of
  separators only.
\<close>

definition Base :: "string \<Rightarrow> string" where
  "Base path = (if path = [] then ''.''
     else let p = rev (dropWhile (\<lambda>c. c = Separator) (rev path));
              p = rev (takeWhile (\<lambda>c. c \<noteq> Separator) (rev p))
          in if p = [] then [Separator] else p)"

text \<open>
  Modelled from the spec: \<^verbatim>\<open>filepath.Ext\<close> scans the path from its end up to the last separator and returns the suffix
  that starts at the first dot it meets.
\<close>

fun extScan :: "string \<Rightarrow> string \<Rightarrow> string" where
  "extScan [] acc = []"
| "extScan (c # cs) acc =
     (if c = Separator then []
      else if c = CHR ''.'' then c # acc
      else extScan cs (c # acc))"

definition Ext :: "string \<Rightarrow> string" where
  "Ext path = extScan (rev path) []"

fun splitOn :: "char \<Rightarrow> string \<Rightarrow> string list" where
  "splitOn sep [] = [[]]"
| "splitOn sep (c # cs) =
     (if c = sep then [] # splitOn sep cs
      else (case splitOn sep cs of [] \<Rightarrow> [[c]] | x # xs \<Rightarrow> (c # x) # xs))"

fun joinWith :: "string \<Rightarrow> string list \<Rightarrow> string" where
  "joinWith sep [] = []"
| "joinWith sep [x] = x"
| "joinWith sep (x # y # ys) = x @ sep @ joinWith sep (y # ys)"

text \<open>
  Modelled from the spec: \<^verbatim>\<open>filepath.Clean\<close>, element by element: empty elements and \<^verbatim>\<open>.\<close> are dropped, \<^verbatim>\<open>..\<close> removes
  the element before it, is dropped at the root of a rooted path, and is kept at the
  start of a relative one. The list \<open>out\<close> holds the elements kept so far, last first.
\<close>

fun cleanElems :: "bool \<Rightarrow> string list \<Rightarrow> string list \<Rightarrow> string list" where
  "cleanElems rooted [] out = rev out"
| "cleanElems rooted (e # es) out =
     (if e = [] \<or> e = ''.'' then cleanElems rooted es out
      else if e = ''..'' then
        (case out of
           [] \<Rightarrow> if rooted then cleanElems rooted es out else cleanElems rooted es [e]
         | x # xs \<Rightarrow> if x = ''..'' then cleanElems rooted es (e # out)
                     else cleanElems rooted es xs)
      else cleanElems rooted es (e # out))"

definition Clean :: "string \<Rightarrow> string" where
  "Clean path = (if path = [] then ''.''
     else let rooted = (hd path = Separator);
              body = joinWith [Separator] (cleanElems rooted (splitOn Separator path) [])
          in if rooted then Separator # body
             else if body = [] then ''.'' else body)"

text \<open>
  Modelled from the spec: \<^verbatim>\<open>filepath.Join\<close> of two elements; empty elements are ignored
  and the result is cleaned.
\<close>

definition Join :: "string \<Rightarrow> string \<Rightarrow> string" where
  "Join a b = (if a \<noteq> [] then Clean (a @ [Separator] @ b)
     else if b \<noteq> [] then Clean b else [])"

text \<open>
  Modelled from the spec: \<^verbatim>\<open>filepath.Rel\<close>. Both paths are cleaned, their common leading elements are removed, and the
  result climbs out of what is left of the base before descending into what is left of
  the target. \<open>None\<close> is the error result (one path rooted and the other not, or a base
  that would have to be left through \<^verbatim>\<open>..\<close>).
\<close>

definition relElems :: "string \<Rightarrow> string list" where
  "relElems p = (if p = [] then []
     else let es = splitOn Separator p in
       if length es > 1 \<and> last es = [] then butlast es else es)"

fun dropCommon :: "string list \<Rightarrow> string list \<Rightarrow> string list \<times> string list" where
  "dropCommon (b # bs) (t # ts) = (if b = t then dropCommon bs ts else (b # bs, t # ts))"
| "dropCommon bs ts = (bs, ts)"

definition Rel :: "string \<Rightarrow> string \<Rightarrow> string option" where
  "Rel basepath targpath =
     (let base = Clean basepath; targ = Clean targpath in
      if targ = base then Some ''.''
      else let base = (if base = ''.'' then [] else base);
               baseSlashed = (base \<noteq> [] \<and> hd base = Separator);
               targSlashed = (targ \<noteq> [] \<and> hd targ = Separator)
           in if baseSlashed \<noteq> targSlashed then None
              else case dropCommon (relElems base) (relElems targ) of
                (bs, ts) \<Rightarrow>
                  if bs \<noteq> [] \<and> ts \<noteq> [] \<and> hd bs = ''..'' then None
                  else if bs \<noteq> [] then
                    Some (joinWith [Separator] (map (\<lambda>_. ''..'') bs @ ts))
                  else Some (joinWith [Separator] ts))"

subsection \<open>Package \<^verbatim>\<open>path\<close>: shell pattern matching\<close>

text \<open>
  Modelled from the spec: \<^verbatim>\<open>path.Match\<close>, the matcher behind the glob rules, as the
  library computes it. The program discards the error result of every call, so the
  model keeps only the Boolean; it is false whenever the library reports
  \<^verbatim>\<open>ErrBadPattern\<close>.

  The library cuts the pattern into chunks, each a star-free piece that may be preceded
  by stars, and matches the chunks from left to right. \<open>scanLoop\<close> is the loop of
  \<^verbatim>\<open>scanChunk\<close> that finds the end of the chunk (the index \<^verbatim>\<open>i\<close>): a backslash
  takes the next byte with it, and a star inside brackets does not end the chunk.
\<close>

fun scanLoop :: "bool \<Rightarrow> string \<Rightarrow> nat" where
  "scanLoop inrange [] = 0"
| "scanLoop inrange (c # cs) =
     (if c = CHR 0x5C then
        (case cs of [] \<Rightarrow> 1 | d # ds \<Rightarrow> 2 + scanLoop inrange ds)
      else if c = CHR ''['' then 1 + scanLoop True cs
      else if c = CHR '']'' then 1 + scanLoop False cs
      else if c = CHR ''*'' \<and> \<not> inrange then 0
      else 1 + scanLoop inrange cs)"

definition scanChunk :: "string \<Rightarrow> bool \<times> string \<times> string" where
  "scanChunk pattern =
     (let star = (pattern \<noteq> [] \<and> hd pattern = CHR ''*'');
          pattern = dropWhile (\<lambda>c. c = CHR ''*'') pattern;
          i = scanLoop False pattern
      in (star, take i pattern, drop i pattern))"

text \<open>
  \<^verbatim>\<open>getEsc\<close> reads one rune of a character class, after an optional backslash.
  \<open>None\<close> is \<^verbatim>\<open>ErrBadPattern\<close>: nothing to read, a bare \<^verbatim>\<open>-\<close> or \<^verbatim>\<open>]\<close>, a byte
  that is not UTF-8, or a class that ends with the rune.
\<close>

definition getEsc :: "string \<Rightarrow> (int \<times> string) option" where
  "getEsc chunk =
     (if chunk = [] \<or> hd chunk = CHR ''-'' \<or> hd chunk = CHR '']'' then None
      else
        let chunk = (if hd chunk = CHR 0x5C then tl chunk else chunk) in
        if chunk = [] then None
        else
          let (r, n) = DecodeRuneInString chunk;
              nchunk = drop n chunk
          in if (r = RuneError \<and> n = 1) \<or> nchunk = [] then None else Some (r, nchunk))"

lemma DecodeRune_size: "s \<noteq> [] \<Longrightarrow> 1 \<le> snd (DecodeRuneInString s)"
  by (cases s)
    (simp_all add: DecodeRuneInString_def decodeLead_def decode2_def decode3_def decode4_def
      split: list.splits)

lemma getEsc_shorter: "getEsc s = Some (r, rest) \<Longrightarrow> length rest < length s"
proof -
  assume a: "getEsc s = Some (r, rest)"
  then have ne: "s \<noteq> []" by (auto simp: getEsc_def)
  define c where "c = (if hd s = CHR 0x5C then tl s else s)"
  have cl: "length c \<le> length s" by (simp add: c_def)
  from a have cne: "c \<noteq> []"
    by (auto simp: getEsc_def c_def Let_def split: if_splits)
  from a have "rest = drop (snd (DecodeRuneInString c)) c"
    by (auto simp: getEsc_def c_def Let_def split: if_splits prod.splits)
  moreover have "1 \<le> snd (DecodeRuneInString c)" using cne by (rule DecodeRune_size)
  ultimately have "length rest < length c" using cne by (cases c) auto
  then show ?thesis using cl by simp
qed

text \<open>
  The loop of \<^verbatim>\<open>matchChunk\<close> that goes through the ranges of a class: \<open>r\<close> is the rune
  read from the name, \<open>nrange\<close> the number of ranges seen, \<open>match\<close> whether one of
  them contained \<open>r\<close>. It returns \<open>match\<close> and the chunk after the closing bracket.
\<close>

function classLoop :: "int \<Rightarrow> nat \<Rightarrow> bool \<Rightarrow> string \<Rightarrow> (bool \<times> string) option" where
  "classLoop r nrange match chunk =
     (if chunk \<noteq> [] \<and> hd chunk = CHR '']'' \<and> nrange > 0 then Some (match, tl chunk)
      else case getEsc chunk of
        None \<Rightarrow> None
      | Some (lo, chunk1) \<Rightarrow>
          if hd chunk1 = CHR ''-'' then
            (case getEsc (tl chunk1) of
               None \<Rightarrow> None
             | Some (hi, chunk2) \<Rightarrow>
                 classLoop r (nrange + 1) (match \<or> (lo \<le> r \<and> r \<le> hi)) chunk2)
          else classLoop r (nrange + 1) (match \<or> (lo \<le> r \<and> r \<le> lo)) chunk1)"
  by pat_completeness auto
termination
proof (relation "measure (\<lambda>(r, nrange, match, chunk). length chunk)")
  show "wf (measure (\<lambda>(r, nrange, match, chunk). length chunk))" by simp
next
  fix r nrange match chunk x2 lo chunk1 x2a hi chunk2
  assume "getEsc chunk = Some x2" "(lo, chunk1) = x2"
    "getEsc (tl chunk1) = Some x2a" "(hi, chunk2) = x2a"
  then have "length chunk1 < length chunk" "length chunk2 < length (tl chunk1)"
    using getEsc_shorter by metis+
  then show "((r, nrange + 1, match \<or> lo \<le> r \<and> r \<le> hi, chunk2), (r, nrange, match, chunk))
      \<in> measure (\<lambda>(r, nrange, match, chunk). length chunk)"
    by simp
next
  fix r nrange match chunk x2 lo chunk1
  assume "getEsc chunk = Some x2" "(lo, chunk1) = x2"
  then have "length chunk1 < length chunk"
    using getEsc_shorter by metis
  then show "((r, nrange + 1, match \<or> lo \<le> r \<and> r \<le> lo, chunk1), (r, nrange, match, chunk))
      \<in> measure (\<lambda>(r, nrange, match, chunk). length chunk)"
    by simp
qed

declare classLoop.simps [simp del]

lemma classLoop_shorter:
  "classLoop r nrange match chunk = Some (m, rest) \<Longrightarrow> length rest \<le> length chunk"
proof (induction r nrange match chunk rule: classLoop.induct)
  case (1 r nrange match chunk)
  show ?case
  proof (cases "chunk \<noteq> [] \<and> hd chunk = CHR '']'' \<and> nrange > 0")
    case True
    with "1.prems" show ?thesis by (subst (asm) classLoop.simps) auto
  next
    case False
    with "1.prems" obtain lo chunk1 where g1: "getEsc chunk = Some (lo, chunk1)"
      by (subst (asm) classLoop.simps) (auto split: option.splits)
    have l1: "length chunk1 < length chunk" using g1 by (rule getEsc_shorter)
    show ?thesis
    proof (cases "hd chunk1 = CHR ''-''")
      case dash: True
      with "1.prems" False g1 obtain hi chunk2
        where g2: "getEsc (tl chunk1) = Some (hi, chunk2)"
          and p: "classLoop r (nrange + 1) (match \<or> (lo \<le> r \<and> r \<le> hi)) chunk2 = Some (m, rest)"
        by (subst (asm) classLoop.simps) (auto split: option.splits)
      have "length rest \<le> length chunk2"
        using "1.IH"(1) [OF False g1 refl dash g2 refl p] .
      moreover have "length chunk2 < length (tl chunk1)" using g2 by (rule getEsc_shorter)
      ultimately show ?thesis using l1 by simp
    next
      case nodash: False
      with "1.prems" False g1 have
        p: "classLoop r (nrange + 1) (match \<or> (lo \<le> r \<and> r \<le> lo)) chunk1 = Some (m, rest)"
        by (subst (asm) classLoop.simps) (auto split: option.splits)
      have "length rest \<le> length chunk1"
        using "1.IH"(2) [OF False g1 refl nodash p] .
      then show ?thesis using l1 by simp
    qed
  qed
qed

text \<open>
  \<^verbatim>\<open>matchChunk\<close> matches a chunk against the beginning of a string. Its three results:
  the pattern is malformed (\<open>BadPattern\<close>), the chunk does not match (\<open>NoMatch\<close>), or
  it matches and leaves the rest of the string (\<open>Matched\<close>). The last argument is the
  flag \<^verbatim>\<open>failed\<close>: once the match has failed, the library goes on through the chunk
  only to check that it is well formed and reads the string no more. A class and
  \<^verbatim>\<open>?\<close> take one rune of the string, any other character one byte; \<^verbatim>\<open>?\<close> does
  not match a slash, a class may.
\<close>

datatype chunkResult = BadPattern | NoMatch | Matched string

function matchChunk :: "string \<Rightarrow> string \<Rightarrow> bool \<Rightarrow> chunkResult" where
  "matchChunk [] s failed = (if failed then NoMatch else Matched s)"
| "matchChunk (c # chunk) s wasFailed =
     (let failed = (wasFailed \<or> s = []) in
      if c = CHR ''['' then
        (let r = (if failed then 0 else fst (DecodeRuneInString s));
             s = (if failed then s else drop (snd (DecodeRuneInString s)) s);
             negated = (chunk \<noteq> [] \<and> hd chunk = CHR ''^'');
             chunk = (if negated then tl chunk else chunk)
         in case classLoop r 0 False chunk of
              None \<Rightarrow> BadPattern
            | Some (match, chunk) \<Rightarrow> matchChunk chunk s (failed \<or> match = negated))
      else if c = CHR ''?'' then
        (if failed then matchChunk chunk s failed
         else matchChunk chunk (drop (snd (DecodeRuneInString s)) s) (hd s = CHR ''/''))
      else if c = CHR 0x5C then
        (case chunk of
           [] \<Rightarrow> BadPattern
         | d # chunk \<Rightarrow>
             if failed then matchChunk chunk s failed
             else matchChunk chunk (tl s) (d \<noteq> hd s))
      else
        (if failed then matchChunk chunk s failed
         else matchChunk chunk (tl s) (c \<noteq> hd s)))"
  by pat_completeness auto
termination
proof (relation "measure (\<lambda>(chunk, s, failed). length chunk)")
  show "wf (measure (\<lambda>(chunk, s, failed). length chunk))" by simp
next
  fix c chunk s wasFailed x xa xb xc xd x2 xe y
  assume "xc = (chunk \<noteq> [] \<and> hd chunk = CHR ''^'')" "xd = (if xc then tl chunk else chunk)"
    "classLoop xa 0 False xd = Some x2" "(xe, y) = x2"
  then have "length y \<le> length xd" "length xd \<le> length chunk"
    using classLoop_shorter by (metis, simp)
  then show "((y, xb, x \<or> xe = xc), (c # chunk, s, wasFailed))
      \<in> measure (\<lambda>(chunk, s, failed). length chunk)"
    by simp
qed auto

declare matchChunk.simps [simp del]

text \<open>
  After a star the library looks for the chunk further to the right, one byte at a
  time and never across a slash, and takes the first place where the chunk matches
  (for the last chunk: where it matches up to the end of the name). \<open>isLast\<close> says
  that no pattern is left after the chunk. \<open>None\<close> means that \<^verbatim>\<open>Match\<close> returns false.
\<close>

fun starSkip :: "string \<Rightarrow> bool \<Rightarrow> string \<Rightarrow> string option" where
  "starSkip chunk isLast [] = None"
| "starSkip chunk isLast (c # name) =
     (if c = CHR ''/'' then None
      else case matchChunk chunk name False of
        BadPattern \<Rightarrow> None
      | NoMatch \<Rightarrow> starSkip chunk isLast name
      | Matched t \<Rightarrow> if isLast \<and> t \<noteq> [] then starSkip chunk isLast name else Some t)"

lemma scanLoop_pos: "c \<noteq> CHR ''*'' \<Longrightarrow> 1 \<le> scanLoop inrange (c # cs)"
  by (simp split: list.splits)

lemma scanChunk_shorter:
  assumes "scanChunk (p # ps) = (star, chunk, rest)"
  shows "length rest < length (p # ps)"
proof (cases "p = CHR ''*''")
  case True
  have "length (dropWhile (\<lambda>c. c = CHR ''*'') ps) \<le> length ps"
    by (rule length_dropWhile_le)
  then show ?thesis using assms True by (auto simp: scanChunk_def Let_def)
next
  case False
  then have "1 \<le> scanLoop False (p # ps)" by (rule scanLoop_pos)
  moreover have "rest = drop (scanLoop False (p # ps)) (p # ps)"
    using assms False by (auto simp: scanChunk_def Let_def)
  ultimately show ?thesis by simp
qed

text \<open>
  The loop of \<^verbatim>\<open>Match\<close> over the chunks. A pattern that ends in a star matches any
  rest without a slash. A chunk that matches where the name stands is taken, unless it
  is the last chunk and leaves a rest; otherwise only a star allows to look further.
  A match once taken is never undone.
\<close>

function Match :: "string \<Rightarrow> string \<Rightarrow> bool" where
  "Match [] name = (name = [])"
| "Match (p # ps) name =
     (case scanChunk (p # ps) of (star, chunk, pattern) \<Rightarrow>
        if star \<and> chunk = [] then CHR ''/'' \<notin> set name
        else
          (case matchChunk chunk name False of
             BadPattern \<Rightarrow> False
           | NoMatch \<Rightarrow>
               (case (if star then starSkip chunk (pattern = []) name else None) of
                  None \<Rightarrow> False
                | Some t \<Rightarrow> Match pattern t)
           | Matched t \<Rightarrow>
               if t = [] \<or> pattern \<noteq> [] then Match pattern t
               else
                 (case (if star then starSkip chunk (pattern = []) name else None) of
                    None \<Rightarrow> False
                  | Some t \<Rightarrow> Match pattern t)))"
  by pat_completeness auto
termination
proof (relation "measure (\<lambda>(pattern, name). length pattern)", goal_cases)
  case 1
  show ?case by simp
next
  case (2 p ps name x y xa ya x2)
  then show ?case using scanChunk_shorter [of p ps x xa ya] by (metis in_measure old.prod.case)
next
  case (3 p ps name x y xa ya x3)
  then show ?case using scanChunk_shorter [of p ps x xa ya] by (metis in_measure old.prod.case)
next
  case (4 p ps name x y xa ya x3 x2)
  then show ?case using scanChunk_shorter [of p ps x xa ya] by (metis in_measure old.prod.case)
qed

declare Match.simps [simp del]

definition path_Match :: "string \<Rightarrow> string \<Rightarrow> bool" where
  "path_Match pattern name = Match pattern name"

subsection \<open>The filter engine: \<^verbatim>\<open>checkFilter\<close>\<close>

text \<open>
  The body of the loop over the rules computes the flag \<^verbatim>\<open>matched\<close> for one rule
  from the normalised path \<open>full\<close>; \<open>ruleMatched\<close> is that computation. The rule is not
  empty here (the loop skips empty rules before).
\<close>

definition ruleMatched :: "string \<Rightarrow> string \<Rightarrow> bool" where
  "ruleMatched full rule =
     (let cleanRule = ToSlash (TrimPrefix rule ''!'') in
      if HasSuffix cleanRule ''/*'' then
        (let parent = TrimSuffix cleanRule ''/*'' in
         parent \<noteq> [] \<and> HasPrefix full (parent @ ''/'') \<and> full \<noteq> parent)
      else
        (let cleanRule = TrimSuffix cleanRule ''/'' in
         if cleanRule \<noteq> [] \<and> (full = cleanRule \<or> HasPrefix full (cleanRule @ ''/''))
         then True
         else path_Match cleanRule full \<or> path_Match cleanRule (Base full)))"

fun checkRules :: "string \<Rightarrow> string list \<Rightarrow> bool \<times> string" where
  "checkRules full [] = (False, [])"
| "checkRules full (rule # filters) =
     (if rule = [] then checkRules full filters
      else if ruleMatched full rule then
        (if HasPrefix rule ''!'' then (False, rule) else (True, rule))
      else checkRules full filters)"

definition checkFilter :: "string \<Rightarrow> string list \<Rightarrow> bool \<times> string" where
  "checkFilter fullPath filters =
     (if fullPath = [] then (False, []) else checkRules (ToSlash fullPath) filters)"

text \<open>
  The file also holds version v1.5 of the program, whose filter \<^verbatim>\<open>isFiltered\<close> goes
  through all rules and lets every matching rule overwrite the verdict. It is embedded
  only to set it against \<^verbatim>\<open>checkFilter\<close>; version v1.7.0 does not call it. The variable
  \<^verbatim>\<open>ignored\<close> is the last argument of the loop.
\<close>

fun isFilteredLoop :: "string \<Rightarrow> string list \<Rightarrow> bool \<Rightarrow> bool" where
  "isFilteredLoop norm [] ignored = ignored"
| "isFilteredLoop norm (p # filters) ignored =
     (let negate = HasPrefix p ''!'';
          pat = TrimPrefix p ''!''
      in if pat = [] then isFilteredLoop norm filters ignored
         else if path_Match pat norm then isFilteredLoop norm filters (\<not> negate)
         else isFilteredLoop norm filters ignored)"

definition isFiltered :: "string \<Rightarrow> string list \<Rightarrow> bool" where
  "isFiltered relPath filters =
     (if relPath = [] then False else isFilteredLoop (ToSlash relPath) filters False)"

subsection \<open>Errors, the environment of a run, and the configuration\<close>

text \<open>
  Go errors are values. \<open>SkipDir\<close> is \<^verbatim>\<open>filepath.SkipDir\<close>, \<open>OSError\<close> an error of
  the operating system with its message, \<open>EncodingNotRecognized\<close> the error that
  \<^verbatim>\<open>convertToUTF8\<close> creates.
\<close>

datatype error = SkipDir | OSError string | EncodingNotRecognized

fun errText :: "error \<Rightarrow> string" where
  "errText SkipDir = ''skip this directory''"
| "errText (OSError msg) = msg"
| "errText EncodingNotRecognized = ''encoding not recognized''"

text \<open>
  A directory entry as the program reads it: \<^verbatim>\<open>Name()\<close>, \<^verbatim>\<open>IsDir()\<close> and whether
  \<^verbatim>\<open>Type()&os.ModeSymlink\<close> is set. \<^verbatim>\<open>IsDir()\<close> is false for a symbolic link, also for
  one that points to a directory. A \<^verbatim>\<open>SimpleDirEntry\<close> has only its name; its
  \<^verbatim>\<open>isDir\<close> field is never set and its \<^verbatim>\<open>Type()\<close> is 0.
\<close>

record DirEntry =
  Name :: string
  IsDir :: bool
  ModeSymlink :: bool

definition SimpleDirEntry :: "string \<Rightarrow> DirEntry" where
  "SimpleDirEntry name = \<lparr>Name = name, IsDir = False, ModeSymlink = False\<rparr>"

record FileInfo =
  infoIsDir :: bool
  Size :: int

text \<open>
  What the program takes from outside its source file. The filesystem: \<^verbatim>\<open>os.ReadDir\<close>,
  \<^verbatim>\<open>filepath.EvalSymlinks\<close>, \<^verbatim>\<open>os.Stat\<close>, \<^verbatim>\<open>os.Readlink\<close>, \<^verbatim>\<open>os.ReadFile\<close> and
  \<^verbatim>\<open>os.Getwd\<close>, where \<open>None\<close> stands for a call that returns an error; only
  \<^verbatim>\<open>os.ReadDir\<close> has its error passed on by the program. And the two data tables of
  libraries: \<open>toLowerCase\<close> is \<^verbatim>\<open>unicode.To(unicode.LowerCase, r)\<close> on the runes above
  ASCII, \<open>gbkDecode\<close> the table \<^verbatim>\<open>decode\<close> of \<^verbatim>\<open>simplifiedchinese\<close>, from the index of a
  two-byte code to its rune.
\<close>

record env =
  ReadDir :: "string \<Rightarrow> error + DirEntry list"
  EvalSymlinks :: "string \<Rightarrow> string option"
  Stat :: "string \<Rightarrow> FileInfo option"
  Readlink :: "string \<Rightarrow> string option"
  ReadFile :: "string \<Rightarrow> string option"
  Getwd :: "error + string"
  toLowerCase :: "int \<Rightarrow> int"
  gbkDecode :: "int \<Rightarrow> int"

text \<open>A Go \<^verbatim>\<open>map[string]bool\<close>; reading a missing key gives \<^verbatim>\<open>false\<close>.\<close>

definition lookup :: "(string \<rightharpoonup> bool) \<Rightarrow> string \<Rightarrow> bool" where
  "lookup m k = (case m k of None \<Rightarrow> False | Some b \<Rightarrow> b)"

record Config =
  OutputFile :: string
  IgnoredDirs :: "string \<rightharpoonup> bool"
  IgnoredExts :: "string \<rightharpoonup> bool"
  IgnoredFiles :: "string \<rightharpoonup> bool"
  MaxFileSize :: int
  TextExts :: "string \<rightharpoonup> bool"
  NoFold :: bool

definition maxDisplayFiles :: nat where "maxDisplayFiles = 24"
definition keepHeadFiles :: nat where "keepHeadFiles = 8"
definition keepTailFiles :: nat where "keepTailFiles = 8"

definition trueKeys :: "string list \<Rightarrow> (string \<rightharpoonup> bool)" where
  "trueKeys ks = map_of (map (\<lambda>k. (k, True)) ks)"

definition config :: Config where
  "config = \<lparr>
     OutputFile = ''project_context.md'',
     IgnoredDirs = trueKeys [''.git'', ''.idea'', ''.vscode'', ''node_modules'',
       ''__pycache__'', ''dist'', ''build'', ''vendor'', ''bin'', ''obj'', ''target'',
       ''.next'', ''coverage''],
     IgnoredExts = trueKeys [''.png'', ''.jpg'', ''.jpeg'', ''.gif'', ''.ico'', ''.svg'',
       ''.mp4'', ''.mp3'', ''.wav'', ''.webp'',
       ''.zip'', ''.tar'', ''.gz'', ''.7z'', ''.rar'',
       ''.exe'', ''.dll'', ''.so'', ''.dylib'', ''.class'', ''.pyc'', ''.o'',
       ''.ttf'', ''.woff'', ''.woff2'', ''.eot'',
       ''.lock'', ''.pdf'', ''.ds_store''],
     IgnoredFiles = trueKeys [''dir2txt.go'', ''dir2txt'', ''dir2txt.exe''],
     MaxFileSize = 1024 * 1024,
     TextExts = trueKeys [''.md'', ''.txt'', ''.log'',
       ''.go'', ''.java'', ''.py'', ''.js'', ''.ts'',
       ''.c'', ''.cpp'', ''.h'', ''.hpp'',
       ''.html'', ''.css'', ''.xml'', ''.yaml'', ''.yml'',
       ''.json'', ''.sql'', ''.properties'', ''.ini'',
       ''.sh'', ''.bat'', ''.conf'', ''.toml''],
     NoFold = False \<rparr>"

subsection \<open>Junk, assets, binary content\<close>

definition isJunk :: "Config \<Rightarrow> string \<Rightarrow> bool" where
  "isJunk cfg name =
     (if name = ''.'' then False
      else if name = ''.env'' \<or> name = ''.gitignore'' then False
      else if lookup (IgnoredFiles cfg) name then True
      else if HasPrefix name ''.'' then True
      else if lookup (IgnoredDirs cfg) name then True
      else False)"

definition isAsset :: "env \<Rightarrow> Config \<Rightarrow> string \<Rightarrow> bool" where
  "isAsset e cfg name = (let ext = ToLower (toLowerCase e) (Ext name) in
     if lookup (IgnoredExts cfg) ext then True else False)"

definition isBinary :: "string \<Rightarrow> bool" where
  "isBinary content =
     (let checkLen = (if length content < 512 then length content else 512)
      in if CHR 0x00 \<in> set (take checkLen content) then True else False)"

subsection \<open>Encoding: the GBK decoder and \<^verbatim>\<open>convertToUTF8\<close>\<close>

text \<open>
  Modelled from the spec: the decoder \<^verbatim>\<open>simplifiedchinese.GBK.NewDecoder()\<close> of
  \<^verbatim>\<open>golang.org/x/text\<close>, read to the end through \<^verbatim>\<open>transform.NewReader\<close> and
  \<^verbatim>\<open>io.ReadAll\<close>. The decoder never returns an error. An ASCII byte stands for itself
  and the byte 80 for the euro sign. A byte from 81 to FE followed by a byte from 40
  to 7E or from 80 to FE is looked up in the table \<^verbatim>\<open>decode\<close> of the package, at the
  index computed from the two bytes. Everything else is written as U+FFFD: a pair
  without an entry in the table (both bytes are consumed), and a byte that cannot start
  a pair or is not followed by a second byte of a pair (that one byte is consumed). The
  table is data of the library; it is the parameter \<open>decode\<close>, with 0 where the table has
  no entry.
\<close>

fun gbkTransform :: "(int \<Rightarrow> int) \<Rightarrow> string \<Rightarrow> string" where
  "gbkTransform decode [] = []"
| "gbkTransform decode (b # src) =
     (let c0 = (of_char b :: int) in
      if c0 < 0x80 then EncodeRune c0 @ gbkTransform decode src
      else if c0 = 0x80 then EncodeRune 0x20AC @ gbkTransform decode src
      else if c0 < 0xFF then
        (case src of
           [] \<Rightarrow> EncodeRune RuneError
         | b1 # src1 \<Rightarrow>
             (let c1 = (of_char b1 :: int) in
              if (0x40 \<le> c1 \<and> c1 < 0x7F) \<or> (0x80 \<le> c1 \<and> c1 < 0xFF) then
                (let c1 = (if c1 < 0x7F then c1 - 0x40 else c1 - 0x41);
                     r = decode ((c0 - 0x81) * 190 + c1)
                 in EncodeRune (if r = 0 then RuneError else r) @ gbkTransform decode src1)
              else EncodeRune RuneError @ gbkTransform decode src))
      else EncodeRune RuneError @ gbkTransform decode src)"

text \<open>
  The pair \<^verbatim>\<open>decoded, err\<close> that \<^verbatim>\<open>io.ReadAll(reader)\<close> returns in \<^verbatim>\<open>convertToUTF8\<close>:
  the reader is on a byte slice in memory, so the only source of an error would be
  the decoder.
\<close>

definition readAllGBK :: "(int \<Rightarrow> int) \<Rightarrow> string \<Rightarrow> error + string" where
  "readAllGBK decode content = Inr (gbkTransform decode content)"

text \<open>
  The result of \<^verbatim>\<open>convertToUTF8\<close>: the error, or the content to emit with the name
  of the encoding it was read in.
\<close>

definition convertToUTF8 :: "env \<Rightarrow> string \<Rightarrow> error + (string \<times> string)" where
  "convertToUTF8 e content =
     (if utf8_Valid content then Inr (content, ''UTF-8'')
      else case readAllGBK (gbkDecode e) content of
        Inr decoded \<Rightarrow>
          if utf8_Valid decoded then Inr (decoded, ''GBK/GB18030'')
          else Inl EncodingNotRecognized
      | Inl err \<Rightarrow> Inl EncodingNotRecognized)"

subsection \<open>The content serializer: \<^verbatim>\<open>processFile\<close>\<close>

text \<open>
  The notices that the program prints to the console, one constructor for each kind of
  notice of the embedded functions, with the values it formats (the warning about an
  unknown encoding is two printed lines).
\<close>

datatype notice =
    SkipSymlinkDir string
  | SkipLargeFile string
  | SkipBinary string
  | WarnEncoding string
  | InfoConverted string string
  | Processing string
  | SkipSoftDir string string
  | SkipSoftContent string string
  | ErrAbs string
  | ErrWalk string error

text \<open>
  The two streams: \<open>writer\<close> is the sequence of strings written to the document (one
  element for each write), \<open>console\<close> the printed notices.
\<close>

record streams =
  writer :: "string list"
  console :: "notice list"

definition say :: "notice \<Rightarrow> streams \<Rightarrow> streams" where
  "say n out = out\<lparr>console := console out @ [n]\<rparr>"

definition emit :: "string list \<Rightarrow> streams \<Rightarrow> streams" where
  "emit ws out = out\<lparr>writer := writer out @ ws\<rparr>"

text \<open>
  The strings written for one file: the heading, the opening fence, the content, a
  newline if the content is not empty and does not end in one, the closing fence and
  the rule.
\<close>

definition fileBlock :: "string \<Rightarrow> string \<Rightarrow> string \<Rightarrow> string list" where
  "fileBlock displayPath codeBlockLang utf8Content =
     [''## File: '' @ displayPath @ [CHR 0x0A, CHR 0x0A],
      ''```'' @ codeBlockLang @ [CHR 0x0A],
      utf8Content]
     @ (if length utf8Content > 0 \<and> last utf8Content \<noteq> CHR 0x0A then [[CHR 0x0A]] else [])
     @ [''```'' @ [CHR 0x0A, CHR 0x0A], ''---'' @ [CHR 0x0A, CHR 0x0A]]"

text \<open>The language tag of the fence, from the lower-case extension.\<close>

definition codeBlockLang :: "string \<Rightarrow> string" where
  "codeBlockLang ext =
     (let codeBlockLang = TrimPrefix ext ''.''
      in if codeBlockLang = [] then ''text'' else codeBlockLang)"

text \<open>Every path through \<^verbatim>\<open>processFile\<close> returns \<^verbatim>\<open>nil\<close>; the model returns the streams.\<close>

definition processFile :: "env \<Rightarrow> Config \<Rightarrow> string \<Rightarrow> streams \<Rightarrow> streams" where
  "processFile e cfg path out =
     (case Stat e path of
        None \<Rightarrow> out
      | Some info \<Rightarrow>
          if infoIsDir info then say (SkipSymlinkDir path) out
          else if Size info > MaxFileSize cfg then say (SkipLargeFile path) out
          else case ReadFile e path of
            None \<Rightarrow> out
          | Some content \<Rightarrow>
              let ext = ToLower (toLowerCase e) (Ext path);
                  isForceText = lookup (TextExts cfg) ext
              in if \<not> isForceText \<and> isBinary content then say (SkipBinary path) out
                 else case convertToUTF8 e content of
                   Inl err \<Rightarrow> say (WarnEncoding path) out
                 | Inr (utf8Content, encoding) \<Rightarrow>
                     let out = (if encoding \<noteq> ''UTF-8''
                                then say (InfoConverted encoding path) out else out);
                         out = say (Processing path) out;
                         displayPath = ToSlash path
                     in emit (fileBlock displayPath (codeBlockLang ext) utf8Content) out)"

subsection \<open>Following symbolic links to directories\<close>

text \<open>
  Both traversals decide in the same way whether a child is descended into, and where:
  a symbolic link whose resolved target is a directory counts as a directory, with the
  target as the path to read. The first component is \<^verbatim>\<open>childIsDir\<close>, the second the
  child's filesystem path.
\<close>

definition followDir :: "env \<Rightarrow> DirEntry \<Rightarrow> string \<Rightarrow> bool \<times> string" where
  "followDir e entry childFSPath =
     (if ModeSymlink entry then
        (case EvalSymlinks e childFSPath of
           Some target \<Rightarrow>
             (case Stat e target of
                Some info \<Rightarrow>
                  if infoIsDir info then (True, target) else (IsDir entry, childFSPath)
              | None \<Rightarrow> (IsDir entry, childFSPath))
         | None \<Rightarrow> (IsDir entry, childFSPath))
      else (IsDir entry, childFSPath))"

subsection \<open>The walker: \<^verbatim>\<open>walkFollowSymlinks\<close>\<close>

record node =
  fsPath :: string
  rel :: string

text \<open>
  The callback \<^verbatim>\<open>fn\<close> gets the logical path, the filesystem path and the entry, and
  works on a state of its own (for the program: the two streams). It returns
  \<^verbatim>\<open>nil\<close> (\<open>None\<close>) or an error.

  The state of the walk is the work list, the set \<^verbatim>\<open>seen\<close> and the state of the
  callback. The work list is kept with its top first: the program appends to the end of
  a slice and pops from the end. \<open>walkEntry\<close> is the body of the inner loop for one entry
  of the directory \<open>n\<close>: \<open>Some err\<close> is the \<^verbatim>\<open>return err\<close> that ends the walk, \<open>None\<close>
  the end of the iteration (also by \<^verbatim>\<open>continue\<close>). \<open>walkEntries\<close> is the inner loop.
\<close>

type_synonym 's walkState = "node list \<times> string set \<times> 's"

fun walkEntry ::
  "env \<Rightarrow> (string \<Rightarrow> string \<Rightarrow> DirEntry \<Rightarrow> 's \<Rightarrow> error option \<times> 's) \<Rightarrow> node \<Rightarrow>
   DirEntry \<Rightarrow> 's walkState \<Rightarrow> error option \<times> 's walkState" where
  "walkEntry e fn n entry (stack, seen, s) =
     (let name = Name entry;
          logicalRel = (if rel n \<noteq> [] then Join (rel n) name else name);
          (childIsDir, childFSPath) = followDir e entry (Join (fsPath n) name)
      in case fn logicalRel childFSPath entry s of
           (Some err, s') \<Rightarrow>
             if err = SkipDir then (None, (stack, seen, s'))
             else (Some err, (stack, seen, s'))
         | (None, s') \<Rightarrow>
             if childIsDir then
               (case EvalSymlinks e childFSPath of
                  Some real \<Rightarrow>
                    if real \<in> seen then (None, (stack, seen, s'))
                    else (None, (\<lparr>fsPath = childFSPath, rel = logicalRel\<rparr> # stack,
                                 insert real seen, s'))
                | None \<Rightarrow>
                    (None, (\<lparr>fsPath = childFSPath, rel = logicalRel\<rparr> # stack, seen, s')))
             else (None, (stack, seen, s')))"

declare walkEntry.simps [simp del]

fun walkEntries ::
  "env \<Rightarrow> (string \<Rightarrow> string \<Rightarrow> DirEntry \<Rightarrow> 's \<Rightarrow> error option \<times> 's) \<Rightarrow> node \<Rightarrow>
   DirEntry list \<Rightarrow> 's walkState \<Rightarrow> error option \<times> 's walkState" where
  "walkEntries e fn n [] st = (None, st)"
| "walkEntries e fn n (entry # entries) st =
     (case walkEntry e fn n entry st of
        (Some err, st') \<Rightarrow> (Some err, st')
      | (None, st') \<Rightarrow> walkEntries e fn n entries st')"

text \<open>
  The outer loop runs while the work list is not empty. Each iteration takes one unit
  of fuel; \<open>None\<close> means that the fuel did not suffice.
\<close>

fun walkLoop ::
  "nat \<Rightarrow> env \<Rightarrow> (string \<Rightarrow> string \<Rightarrow> DirEntry \<Rightarrow> 's \<Rightarrow> error option \<times> 's) \<Rightarrow>
   's walkState \<Rightarrow> (error option \<times> 's) option" where
  "walkLoop fuel e fn ([], seen, s) = Some (None, s)"
| "walkLoop 0 e fn (n # stack, seen, s) = None"
| "walkLoop (Suc fuel) e fn (n # stack, seen, s) =
     (case ReadDir e (fsPath n) of
        Inl err \<Rightarrow> Some (Some err, s)
      | Inr entries \<Rightarrow>
          (case walkEntries e fn n entries (stack, seen, s) of
             (Some err, (stack', seen', s')) \<Rightarrow> Some (Some err, s')
           | (None, st') \<Rightarrow> walkLoop fuel e fn st'))"

definition walkFollowSymlinks ::
  "nat \<Rightarrow> env \<Rightarrow> string \<Rightarrow> (string \<Rightarrow> string \<Rightarrow> DirEntry \<Rightarrow> 's \<Rightarrow> error option \<times> 's) \<Rightarrow>
   's \<Rightarrow> (error option \<times> 's) option" where
  "walkFollowSymlinks fuel e root fn s =
     walkLoop fuel e fn ([\<lparr>fsPath = root, rel = []\<rparr>], {}, s)"

subsection \<open>The tree renderer: \<^verbatim>\<open>writeTree\<close>\<close>

text \<open>The first loop of \<^verbatim>\<open>writeTree\<close> keeps the entries for which this test holds.\<close>

definition treeVisible :: "Config \<Rightarrow> string \<Rightarrow> string \<Rightarrow> string list \<Rightarrow> DirEntry \<Rightarrow> bool" where
  "treeVisible cfg rootLogical currentLogical hardFilters entry =
     (let name = Name entry;
          logicalPath = Join currentLogical name;
          r = (case Rel rootLogical logicalPath of Some r \<Rightarrow> r | None \<Rightarrow> []);
          relSlash = ToSlash r
      in if name = OutputFile cfg then False
         else if isJunk cfg name then False
         else if relSlash \<noteq> [] \<and> fst (checkFilter relSlash hardFilters) then False
         else True)"

text \<open>Decimal digits of a number, as \<^verbatim>\<open>%d\<close> prints it.\<close>

fun showNat :: "nat \<Rightarrow> string" where
  "showNat n = (if n < 10 then [char_of (48 + n)]
     else showNat (n div 10) @ [char_of (48 + n mod 10)])"

declare showNat.simps [simp del]

definition showInt :: "int \<Rightarrow> string" where
  "showInt i = (if i < 0 then CHR ''-'' # showNat (nat (- i)) else showNat (nat i))"

text \<open>The folding of a long list of files.\<close>

definition foldFiles :: "Config \<Rightarrow> DirEntry list \<Rightarrow> DirEntry list" where
  "foldFiles cfg files =
     (if \<not> NoFold cfg \<and> length files > maxDisplayFiles then
        (let hiddenCount = int (length files) - int keepHeadFiles - int keepTailFiles;
             hiddenCount = (if hiddenCount < 0 then 0 else hiddenCount)
         in take keepHeadFiles files
            @ [SimpleDirEntry (''... ('' @ showInt hiddenCount @ '' files hidden) ...'')]
            @ drop (length files - keepTailFiles) files)
      else files)"

definition finalEntries :: "Config \<Rightarrow> string \<Rightarrow> string \<Rightarrow> string list \<Rightarrow> DirEntry list \<Rightarrow> DirEntry list" where
  "finalEntries cfg rootLogical currentLogical hardFilters entries =
     (let visibleEntries = filter (treeVisible cfg rootLogical currentLogical hardFilters) entries;
          dirs = filter IsDir visibleEntries;
          files = filter (\<lambda>e. \<not> IsDir e) visibleEntries
      in dirs @ foldFiles cfg files)"

text \<open>The branch markers and connectors are UTF-8 box-drawing characters.\<close>

definition markerMid :: string where
  "markerMid = [CHR 0xE2, CHR 0x94, CHR 0x9C, CHR 0xE2, CHR 0x94, CHR 0x80,
                CHR 0xE2, CHR 0x94, CHR 0x80, CHR '' '']"

definition markerLast :: string where
  "markerLast = [CHR 0xE2, CHR 0x94, CHR 0x94, CHR 0xE2, CHR 0x94, CHR 0x80,
                 CHR 0xE2, CHR 0x94, CHR 0x80, CHR '' '']"

definition connector :: string where
  "connector = [CHR 0xE2, CHR 0x94, CHR 0x82, CHR '' '', CHR '' '', CHR '' '']"

definition displayName :: "env \<Rightarrow> string \<Rightarrow> DirEntry \<Rightarrow> string" where
  "displayName e currentFS entry =
     (if ModeSymlink entry then
        (case Readlink e (Join currentFS (Name entry)) of
           Some target \<Rightarrow> Name entry @ '' -> '' @ target
         | None \<Rightarrow> Name entry)
      else Name entry)"

definition treeLine :: "env \<Rightarrow> string \<Rightarrow> string \<Rightarrow> bool \<Rightarrow> DirEntry \<Rightarrow> string" where
  "treeLine e currentFS prefix isLast entry =
     prefix @ (if isLast then markerLast else markerMid) @ displayName e currentFS entry
     @ [CHR 0x0A]"

text \<open>
  The state of the rendering is the document written so far and the map \<^verbatim>\<open>seen\<close>,
  which all recursive calls share. \<open>treeEntry\<close> is the body of the loop over
  \<^verbatim>\<open>finalEntries\<close> for one entry: it writes the line of the entry and descends into
  it if it is a directory that \<^verbatim>\<open>seen\<close> does not hold. \<open>descend\<close> is the recursive
  call of \<^verbatim>\<open>writeTree\<close>, whose error result the program ignores. \<open>treeLoop\<close> is the
  loop; \<open>n\<close> is the number of final entries and \<open>i\<close> the index of the entry at the head
  of the list.
\<close>

type_synonym treeState = "string list \<times> string set"

fun treeEntry ::
  "(string \<Rightarrow> string \<Rightarrow> string \<Rightarrow> treeState \<Rightarrow> treeState option) \<Rightarrow> env \<Rightarrow>
   string \<Rightarrow> string \<Rightarrow> string \<Rightarrow> bool \<Rightarrow> DirEntry \<Rightarrow> treeState \<Rightarrow> treeState option" where
  "treeEntry descend e currentFS currentLogical prefix isLast entry (w, seen) =
     (let w = w @ [treeLine e currentFS prefix isLast entry];
          childPathLogical = Join currentLogical (Name entry);
          (childIsDir, childPathFS) = followDir e entry (Join currentFS (Name entry));
          newPrefix = (if isLast then prefix @ ''    '' else prefix @ connector)
      in if childIsDir then
           (case EvalSymlinks e childPathFS of
              Some real \<Rightarrow>
                if real \<in> seen then Some (w, seen)
                else descend childPathFS childPathLogical newPrefix (w, insert real seen)
            | None \<Rightarrow> descend childPathFS childPathLogical newPrefix (w, seen))
         else Some (w, seen))"

declare treeEntry.simps [simp del]

fun treeLoop ::
  "(string \<Rightarrow> string \<Rightarrow> string \<Rightarrow> treeState \<Rightarrow> treeState option) \<Rightarrow> env \<Rightarrow>
   string \<Rightarrow> string \<Rightarrow> string \<Rightarrow> nat \<Rightarrow> nat \<Rightarrow> DirEntry list \<Rightarrow> treeState \<Rightarrow> treeState option" where
  "treeLoop descend e currentFS currentLogical prefix n i [] st = Some st"
| "treeLoop descend e currentFS currentLogical prefix n i (entry # rest) st =
     (case treeEntry descend e currentFS currentLogical prefix (int i = int n - 1) entry st of
        None \<Rightarrow> None
      | Some st' \<Rightarrow> treeLoop descend e currentFS currentLogical prefix n (Suc i) rest st')"

text \<open>
  \<^verbatim>\<open>writeTree\<close> is recursive; the fuel bounds the depth of the recursion and \<open>None\<close>
  means that it did not suffice. The parameter \<^verbatim>\<open>rootFS\<close> is never read by the
  program and is kept for the signature.
\<close>

primrec writeTree ::
  "nat \<Rightarrow> env \<Rightarrow> Config \<Rightarrow> string \<Rightarrow> string \<Rightarrow> string \<Rightarrow> string \<Rightarrow> string \<Rightarrow> string list \<Rightarrow>
   treeState \<Rightarrow> (error option \<times> treeState) option" where
  "writeTree 0 e cfg rootFS rootLogical currentFS currentLogical prefix hardFilters st = None"
| "writeTree (Suc fuel) e cfg rootFS rootLogical currentFS currentLogical prefix hardFilters st =
     (case ReadDir e currentFS of
        Inl err \<Rightarrow> Some (Some err, st)
      | Inr entries \<Rightarrow>
          (let final = finalEntries cfg rootLogical currentLogical hardFilters entries
           in case treeLoop
                (\<lambda>childFS childLogical newPrefix st'.
                   map_option snd
                     (writeTree fuel e cfg rootFS rootLogical childFS childLogical newPrefix
                        hardFilters st'))
                e currentFS currentLogical prefix (length final) 0 final st of
                None \<Rightarrow> None
              | Some st' \<Rightarrow> Some (None, st')))"

text \<open>The recursive call inside the loop, for a given amount of remaining fuel.\<close>

definition treeDescend ::
  "nat \<Rightarrow> env \<Rightarrow> Config \<Rightarrow> string \<Rightarrow> string \<Rightarrow> string list \<Rightarrow>
   string \<Rightarrow> string \<Rightarrow> string \<Rightarrow> treeState \<Rightarrow> treeState option" where
  "treeDescend fuel e cfg rootFS rootLogical hardFilters =
     (\<lambda>childFS childLogical newPrefix st'.
        map_option snd
          (writeTree fuel e cfg rootFS rootLogical childFS childLogical newPrefix hardFilters st'))"

subsection \<open>The aggregator: \<^verbatim>\<open>processDirs\<close>\<close>

text \<open>
  Modelled from the spec: \<^verbatim>\<open>filepath.Abs\<close> cleans an absolute path and joins a relative
  one to the working directory.
\<close>

definition Abs :: "env \<Rightarrow> string \<Rightarrow> error + string" where
  "Abs e path =
     (if path \<noteq> [] \<and> hd path = Separator then Inr (Clean path)
      else case Getwd e of Inl err \<Rightarrow> Inl err | Inr wd \<Rightarrow> Inr (Join wd path))"

text \<open>
  The callback that \<^verbatim>\<open>processDirs\<close> passes to the walker. It returns
  \<^verbatim>\<open>filepath.SkipDir\<close> or \<^verbatim>\<open>nil\<close>, and the streams.
\<close>

definition walkFn ::
  "env \<Rightarrow> Config \<Rightarrow> string \<Rightarrow> string list \<Rightarrow> string list \<Rightarrow>
   string \<Rightarrow> string \<Rightarrow> DirEntry \<Rightarrow> streams \<Rightarrow> error option \<times> streams" where
  "walkFn e cfg absOut softFilters hardFilters logicalRel fullPath d out =
     (let absPath = fullPath in
      if absPath = absOut then (if IsDir d then (Some SkipDir, out) else (None, out))
      else
        let name = Name d in
        if isJunk cfg name then (if IsDir d then (Some SkipDir, out) else (None, out))
        else
          let relSlash = ToSlash logicalRel;
              relSlash = (if relSlash = ''.'' then [] else relSlash)
          in if relSlash \<noteq> [] \<and> fst (checkFilter relSlash hardFilters)
             then (if IsDir d then (Some SkipDir, out) else (None, out))
             else case checkFilter relSlash softFilters of
               (matchedSoft, rule) \<Rightarrow>
                 if matchedSoft then
                   (let display = (if relSlash = [] then ToSlash fullPath else relSlash)
                    in if IsDir d then (Some SkipDir, say (SkipSoftDir rule display) out)
                       else (None, say (SkipSoftContent rule display) out))
                 else if IsDir d then (None, out)
                 else if isAsset e cfg name then (None, out)
                 else (None, processFile e cfg fullPath out))"

text \<open>The first loop of \<^verbatim>\<open>processDirs\<close>: one tree for each root, each with a fresh \<^verbatim>\<open>seen\<close>.\<close>

fun treeSection ::
  "nat \<Rightarrow> env \<Rightarrow> Config \<Rightarrow> string list \<Rightarrow> string list \<Rightarrow> string list \<Rightarrow> string list option" where
  "treeSection fuel e cfg hardFilters [] w = Some w"
| "treeSection fuel e cfg hardFilters (dir # dirs) w =
     (case Abs e dir of
        Inl err \<Rightarrow>
          treeSection fuel e cfg hardFilters dirs
            (w @ [dir @ ''/'' @ [CHR 0x0A],
                  ''Error generating tree: '' @ errText err @ [CHR 0x0A]])
      | Inr absDir \<Rightarrow>
          (case writeTree fuel e cfg absDir absDir absDir absDir [] hardFilters
                  (w @ [Base absDir @ ''/'' @ [CHR 0x0A]], {}) of
             None \<Rightarrow> None
           | Some (err, (w', seen')) \<Rightarrow>
               treeSection fuel e cfg hardFilters dirs
                 ((case err of
                     Some er \<Rightarrow>
                       w' @ [''Error generating tree for '' @ dir @ '': '' @ errText er
                             @ [CHR 0x0A]]
                   | None \<Rightarrow> w')
                  @ [[CHR 0x0A]])))"

text \<open>The second loop: one walk for each root; the variable \<^verbatim>\<open>firstErr\<close> is the first component.\<close>

fun contentSection ::
  "nat \<Rightarrow> env \<Rightarrow> Config \<Rightarrow> string \<Rightarrow> string list \<Rightarrow> string list \<Rightarrow> string list \<Rightarrow>
   error option \<times> streams \<Rightarrow> (error option \<times> streams) option" where
  "contentSection fuel e cfg absOut softFilters hardFilters [] st = Some st"
| "contentSection fuel e cfg absOut softFilters hardFilters (dir # dirs) (firstErr, out) =
     (case Abs e dir of
        Inl err \<Rightarrow>
          contentSection fuel e cfg absOut softFilters hardFilters dirs
            (Some err, say (ErrAbs dir) out)
      | Inr absDir \<Rightarrow>
          (case walkFollowSymlinks fuel e absDir
                  (walkFn e cfg absOut softFilters hardFilters) out of
             None \<Rightarrow> None
           | Some (None, out') \<Rightarrow>
               contentSection fuel e cfg absOut softFilters hardFilters dirs (firstErr, out')
           | Some (Some err, out') \<Rightarrow>
               contentSection fuel e cfg absOut softFilters hardFilters dirs
                 (Some err, say (ErrWalk dir err) out')))"

definition processDirs ::
  "nat \<Rightarrow> env \<Rightarrow> Config \<Rightarrow> string list \<Rightarrow> string list \<Rightarrow> string list \<Rightarrow> streams \<Rightarrow> string \<Rightarrow>
   (error option \<times> streams) option" where
  "processDirs fuel e cfg dirs softFilters hardFilters out finalOutPath =
     (case Abs e finalOutPath of
        Inl err \<Rightarrow> Some (Some err, out)
      | Inr absOut \<Rightarrow>
          (let out = emit [''# Project Structure'' @ [CHR 0x0A, CHR 0x0A],
                           ''```text'' @ [CHR 0x0A]] out
           in case treeSection fuel e cfg hardFilters dirs (writer out) of
                None \<Rightarrow> None
              | Some w \<Rightarrow>
                  (let out = out\<lparr>writer := w\<rparr>;
                       out = emit [''```'' @ [CHR 0x0A, CHR 0x0A], ''---'' @ [CHR 0x0A, CHR 0x0A],
                                   ''# File Contents'' @ [CHR 0x0A, CHR 0x0A]] out
                   in contentSection fuel e cfg absOut softFilters hardFilters dirs (None, out))))"

text \<open>
  Before it calls \<^verbatim>\<open>processDirs\<close>, \<^verbatim>\<open>main\<close> stores the base name of the output path in
  the configuration (and the flag \<^verbatim>\<open>--no-fold\<close> in \<^verbatim>\<open>NoFold\<close>).
\<close>

definition mainConfig :: "string \<Rightarrow> bool \<Rightarrow> Config" where
  "mainConfig finalOutPath noFold = config\<lparr>OutputFile := Base finalOutPath, NoFold := noFold\<rparr>"

subsection \<open>Filesystems on which the traversals are studied\<close>

text \<open>
  Two conditions on an environment, used as hypotheses below. The filesystem has
  finitely many canonical paths when \<open>ran (EvalSymlinks e)\<close> is finite. \<open>canonicalDirs\<close>
  says that every listed entry that the traversals treat as a directory has a
  canonical path: \<^verbatim>\<open>filepath.EvalSymlinks\<close> succeeds on the path they would descend into.
\<close>

definition resolves :: "env \<Rightarrow> string \<Rightarrow> DirEntry \<Rightarrow> bool" where
  "resolves e d x \<longleftrightarrow>
     (case followDir e x (Join d (Name x)) of
        (childIsDir, p) \<Rightarrow> childIsDir \<longrightarrow> EvalSymlinks e p \<noteq> None)"

definition canonicalDirs :: "env \<Rightarrow> bool" where
  "canonicalDirs e \<longleftrightarrow> (\<forall>d es. ReadDir e d = Inr es \<longrightarrow> (\<forall>x \<in> set es. resolves e d x))"

section \<open>Example filesystems\<close>

text \<open>
  Small concrete environments on which the theorems below are instantiated. Their names
  and patterns are ASCII, so that \<^verbatim>\<open>strings.ToLower\<close> never consults the case tables.
  Of the two library tables the environments carry the rows written out here, which
  are rows of the library: lower case for the Latin-1 capitals and the Kelvin sign, and
  the GBK codes B0A1 (U+554A), CEC4 (U+6587) and D6D0 (U+4E2D), at the indices
  \<open>(c0 - 0x81) * 190 + (c1 - 0x41)\<close>.
\<close>

definition fileEntry :: "string \<Rightarrow> DirEntry" where
  "fileEntry name = \<lparr>Name = name, IsDir = False, ModeSymlink = False\<rparr>"
definition dirEntry :: "string \<Rightarrow> DirEntry" where
  "dirEntry name = \<lparr>Name = name, IsDir = True, ModeSymlink = False\<rparr>"
definition linkEntry :: "string \<Rightarrow> DirEntry" where
  "linkEntry name = \<lparr>Name = name, IsDir = False, ModeSymlink = True\<rparr>"

definition lowerRows :: "int \<Rightarrow> int" where
  "lowerRows r =
     (if 0xC0 \<le> r \<and> r \<le> 0xDE \<and> r \<noteq> 0xD7 then r + 32
      else if r = 0x212A then 0x6B
      else r)"

definition gbkRows :: "int \<Rightarrow> int" where
  "gbkRows i =
     (if i = 9026 then 0x554A
      else if i = 14761 then 0x6587
      else if i = 16293 then 0x4E2D
      else 0)"

definition plainEnv :: "(string \<times> string) list \<Rightarrow> env" where
  "plainEnv files = \<lparr>
     ReadDir = (\<lambda>p. Inl (OSError ''not a directory'')),
     EvalSymlinks = (\<lambda>p. if p \<in> fst ` set files then Some p else None),
     Stat = (\<lambda>p. map_option (\<lambda>c. \<lparr>infoIsDir = False, Size = int (length c)\<rparr>) (map_of files p)),
     Readlink = (\<lambda>p. None),
     ReadFile = map_of files,
     Getwd = Inr ''/'',
     toLowerCase = lowerRows,
     gbkDecode = gbkRows \<rparr>"

definition noOutput :: streams where "noOutput = \<lparr>writer = [], console = []\<rparr>"

definition sampleFiles :: "(string \<times> string) list" where
  "sampleFiles =
     [(''/r/a.bin'', [CHR ''a'', CHR 0x00]),
      (''/r/a.go'', [CHR ''a'', CHR 0x00]),
      (''/r/gbk'', [CHR 0xB0, CHR 0xA1]),
      (''/r/bad'', [CHR 0xB0]),
      (''/r/worse'', [CHR 0xFF, CHR 0xFE]),
      (''/r/two.txt'', ''a\<newline>\<newline>''),
      (''/r/none.txt'', ''a''),
      (''/r/empty.txt'', [])]"

text \<open>A directory \<^verbatim>\<open>/big\<close> with the thirty files \<^verbatim>\<open>f10\<close> to \<^verbatim>\<open>f39\<close>.\<close>

definition manyFiles :: "DirEntry list" where
  "manyFiles = map (\<lambda>i. fileEntry (''f'' @ showNat i)) [10..<40]"

definition foldEnv :: env where
  "foldEnv = \<lparr>
     ReadDir = (\<lambda>p. if p = ''/big'' then Inr manyFiles else Inl (OSError ''not a directory'')),
     EvalSymlinks = (\<lambda>p. Some p),
     Stat = (\<lambda>p. Some \<lparr>infoIsDir = (p = ''/big''), Size = 0\<rparr>),
     Readlink = (\<lambda>p. None),
     ReadFile = (\<lambda>p. if p = ''/big'' then None else Some []),
     Getwd = Inr ''/'',
     toLowerCase = lowerRows,
     gbkDecode = gbkRows \<rparr>"

text \<open>
  A filesystem given by three tables: the directories with their entries, the symbolic
  links with their resolved targets, and the files with their contents.
\<close>

definition tableEnv ::
  "(string \<times> DirEntry list) list \<Rightarrow> (string \<times> string) list \<Rightarrow> (string \<times> string) list \<Rightarrow> env" where
  "tableEnv dirs links files =
     (let resolve = (\<lambda>p. case map_of links p of Some t \<Rightarrow> t | None \<Rightarrow> p) in
      \<lparr> ReadDir = (\<lambda>p. case map_of dirs p of
                          Some es \<Rightarrow> Inr es
                        | None \<Rightarrow> Inl (OSError ''not a directory'')),
        EvalSymlinks = (\<lambda>p. case map_of dirs (resolve p) of
                               Some es \<Rightarrow> Some (resolve p)
                             | None \<Rightarrow> map_option (\<lambda>c. resolve p) (map_of files (resolve p))),
        Stat = (\<lambda>p. case map_of dirs (resolve p) of
                       Some es \<Rightarrow> Some \<lparr>infoIsDir = True, Size = 4096\<rparr>
                     | None \<Rightarrow>
                         map_option (\<lambda>c. \<lparr>infoIsDir = False, Size = int (length c)\<rparr>)
                           (map_of files (resolve p))),
        Readlink = map_of links,
        ReadFile = (\<lambda>p. map_of files (resolve p)),
        Getwd = Inr ''/'',
        toLowerCase = lowerRows,
        gbkDecode = gbkRows \<rparr>)"

text \<open>The root \<^verbatim>\<open>/r\<close> holds a file and the link \<^verbatim>\<open>loop\<close>, which points back to \<^verbatim>\<open>/r\<close>.\<close>

definition loopEnv :: env where
  "loopEnv = tableEnv
     [(''/r'', [fileEntry ''a.txt'', linkEntry ''loop''])]
     [(''/r/loop'', ''/r'')]
     [(''/r/a.txt'', ''hi\<newline>'')]"

text \<open>The root \<^verbatim>\<open>/r\<close> holds a file and the hidden link \<^verbatim>\<open>.cfg\<close> to the directory \<^verbatim>\<open>/ext\<close>.\<close>

definition hiddenLinkEnv :: env where
  "hiddenLinkEnv = tableEnv
     [(''/r'', [linkEntry ''.cfg'', fileEntry ''a.txt'']), (''/ext'', [fileEntry ''b.txt''])]
     [(''/r/.cfg'', ''/ext'')]
     [(''/r/a.txt'', ''A\<newline>''), (''/ext/b.txt'', ''B\<newline>'')]"

text \<open>A root with a file of the program's own name, a directory and a source file.\<close>

definition softEnv :: env where
  "softEnv = tableEnv
     [(''/r'', [fileEntry ''dir2txt.go'', dirEntry ''docs'', fileEntry ''main.go'']),
      (''/r/docs'', [fileEntry ''guide.md''])]
     []
     [(''/r/dir2txt.go'', ''x\<newline>''), (''/r/main.go'', ''m\<newline>''), (''/r/docs/guide.md'', ''g\<newline>'')]"

text \<open>The output document \<^verbatim>\<open>/r/out.md\<close> and a different file of the same name below it.\<close>

definition outEnv :: env where
  "outEnv = tableEnv
     [(''/r'', [fileEntry ''out.md'', dirEntry ''sub'']), (''/r/sub'', [fileEntry ''out.md''])]
     []
     [(''/r/out.md'', ''doc''), (''/r/sub/out.md'', ''other\<newline>'')]"

text \<open>
  The directory \<^verbatim>\<open>/big\<close> again with thirty entries that are not directories, but the
  first one, \<^verbatim>\<open>f10\<close>, is a symbolic link to the directory \<^verbatim>\<open>/ext\<close>, which holds one file.
\<close>

definition linkedFiles :: "DirEntry list" where
  "linkedFiles = linkEntry ''f10'' # map (\<lambda>i. fileEntry (''f'' @ showNat i)) [11..<40]"

definition linkFoldEnv :: env where
  "linkFoldEnv = tableEnv
     [(''/big'', linkedFiles), (''/ext'', [fileEntry ''b.txt''])]
     [(''/big/f10'', ''/ext'')]
     [(''/ext/b.txt'', ''B\<newline>'')]"

section \<open>Properties\<close>

subsection \<open>The filter engine\<close>

lemma checkRules_find:
  "checkRules full rules =
     (case find (\<lambda>r. r \<noteq> [] \<and> ruleMatched full r) rules of
        None \<Rightarrow> (False, [])
      | Some r \<Rightarrow> (\<not> HasPrefix r ''!'', r))"
  by (induction rules) auto

lemma checkRules_decided:
  assumes "\<forall>q \<in> set pre. q = [] \<or> \<not> ruleMatched full q"
    and "r \<noteq> []" and "ruleMatched full r"
  shows "checkRules full (pre @ r # post) = (\<not> HasPrefix r ''!'', r)"
  using assms by (induction pre) auto

lemma checkRules_none:
  assumes "\<forall>q \<in> set rules. q = [] \<or> \<not> ruleMatched full q"
  shows "checkRules full rules = (False, [])"
  using assms by (induction rules) auto

text \<open>
  Claim C1. For a non-empty path, \<^verbatim>\<open>checkFilter\<close> goes through the rules in the order of
  the list, and the first non-empty rule that matches decides: the result is that rule,
  with \<^verbatim>\<open>true\<close> for a normal rule and \<^verbatim>\<open>false\<close> for a rule that starts with \<^verbatim>\<open>!\<close>. The
  rules after it have no influence on the result (\<open>post\<close> is arbitrary), and if no rule
  matches the result is \<^verbatim>\<open>(false, "")\<close>.
\<close>

theorem checkFilter_first_match_wins:
  assumes "p \<noteq> []"
  shows "checkFilter p rules =
           (case find (\<lambda>r. r \<noteq> [] \<and> ruleMatched (ToSlash p) r) rules of
              None \<Rightarrow> (False, [])
            | Some r \<Rightarrow> (\<not> HasPrefix r ''!'', r))
       \<and> (\<forall>pre r post.
             (\<forall>q \<in> set pre. q = [] \<or> \<not> ruleMatched (ToSlash p) q)
             \<and> r \<noteq> [] \<and> ruleMatched (ToSlash p) r
             \<longrightarrow> checkFilter p (pre @ r # post) = (\<not> HasPrefix r ''!'', r))
       \<and> ((\<forall>q \<in> set rules. q = [] \<or> \<not> ruleMatched (ToSlash p) q)
             \<longrightarrow> checkFilter p rules = (False, []))"
  using assms
  by (simp add: checkFilter_def checkRules_find [symmetric] checkRules_decided checkRules_none)

theorem checkFilter_first_match_wins_witness:
  "''docs/x.md'' \<noteq> []
   \<and> checkFilter ''docs/x.md'' [''*.go'', ''!docs/x.md'', ''docs/*''] = (False, ''!docs/x.md'')
   \<and> checkFilter ''docs/y.md'' [''*.go'', ''!docs/x.md'', ''docs/*'', ''!*.md''] = (True, ''docs/*'')
   \<and> checkFilter ''docs/x.md'' [''*.go'', ''src''] = (False, [])"
proof -
  have h: "''docs/x.md'' \<noteq> []" "''docs/y.md'' \<noteq> []" by simp_all
  have m1: "(\<forall>q \<in> set [''*.go'']. q = [] \<or> \<not> ruleMatched (ToSlash ''docs/x.md'') q)
      \<and> ''!docs/x.md'' \<noteq> [] \<and> ruleMatched (ToSlash ''docs/x.md'') ''!docs/x.md''"
    by code_simp
  have m2: "(\<forall>q \<in> set [''*.go'', ''!docs/x.md'']. q = [] \<or> \<not> ruleMatched (ToSlash ''docs/y.md'') q)
      \<and> ''docs/*'' \<noteq> [] \<and> ruleMatched (ToSlash ''docs/y.md'') ''docs/*''"
    by code_simp
  have m3: "\<forall>q \<in> set [''*.go'', ''src'']. q = [] \<or> \<not> ruleMatched (ToSlash ''docs/x.md'') q"
    by code_simp
  have "checkFilter ''docs/x.md'' ([''*.go''] @ ''!docs/x.md'' # [''docs/*''])
          = (\<not> HasPrefix ''!docs/x.md'' ''!'', ''!docs/x.md'')"
    using checkFilter_first_match_wins [OF h(1)] m1 by blast
  moreover have "checkFilter ''docs/y.md'' ([''*.go'', ''!docs/x.md''] @ ''docs/*'' # [''!*.md''])
          = (\<not> HasPrefix ''docs/*'' ''!'', ''docs/*'')"
    using checkFilter_first_match_wins [OF h(2)] m2 by blast
  moreover have "checkFilter ''docs/x.md'' [''*.go'', ''src''] = (False, [])"
    using checkFilter_first_match_wins [OF h(1), of "[''*.go'', ''src'']"] m3 by blast
  ultimately show ?thesis by (simp add: HasPrefix_def)
qed

text \<open>
  The older filter decides by the last matching rule, so the two differ as soon as a
  broad rule stands before a narrower, contradicting one.
\<close>

lemma isFiltered_last_match:
  "isFiltered ''a.txt'' [''*.txt'', ''!a.txt''] = False
   \<and> checkFilter ''a.txt'' [''*.txt'', ''!a.txt''] = (True, ''*.txt'')"
  by code_simp

text \<open>
  Claim C5, as the program has it. A rule that does not end in \<^verbatim>\<open>/*\<close> is tried as a
  directory prefix first and as a shell pattern otherwise: for a non-empty path \<open>p\<close> the
  rule is reported as the deciding rule exactly when \<open>p\<close> is the rule's directory \<open>d\<close>,
  or starts with \<open>d\<close> followed by a slash, or \<open>d\<close> read as a pattern matches \<open>p\<close> or the
  last element of \<open>p\<close>.
\<close>

theorem checkFilter_directory_rule:
  assumes "p \<noteq> []" and "rule \<noteq> []"
    and "\<not> HasSuffix (ToSlash (TrimPrefix rule ''!'')) ''/*''"
  shows "checkFilter p [rule] =
     (let d = TrimSuffix (ToSlash (TrimPrefix rule ''!'')) ''/'' in
      if (d \<noteq> [] \<and> (ToSlash p = d \<or> HasPrefix (ToSlash p) (d @ ''/'')))
         \<or> path_Match d (ToSlash p) \<or> path_Match d (Base (ToSlash p))
      then (\<not> HasPrefix rule ''!'', rule) else (False, []))"
  using assms by (auto simp: checkFilter_def ruleMatched_def Let_def)

theorem checkFilter_directory_rule_witness:
  "checkFilter ''docs/a/b.md'' [''docs/''] = (True, ''docs/'')
   \<and> checkFilter ''bar/foo'' [''!foo''] = (False, ''!foo'')
   \<and> checkFilter ''docsx/a'' [''docs/''] = (False, [])"
proof -
  have a: "''docs/a/b.md'' \<noteq> []" "''docs/'' \<noteq> []"
      "\<not> HasSuffix (ToSlash (TrimPrefix ''docs/'' ''!'')) ''/*''"
    by code_simp+
  have b: "''bar/foo'' \<noteq> []" "''!foo'' \<noteq> []"
      "\<not> HasSuffix (ToSlash (TrimPrefix ''!foo'' ''!'')) ''/*''"
    by code_simp+
  have c: "''docsx/a'' \<noteq> []" by simp
  have va: "(let d = TrimSuffix (ToSlash (TrimPrefix ''docs/'' ''!'')) ''/'' in
      (d \<noteq> [] \<and> (ToSlash ''docs/a/b.md'' = d \<or> HasPrefix (ToSlash ''docs/a/b.md'') (d @ ''/'')))
         \<or> path_Match d (ToSlash ''docs/a/b.md'') \<or> path_Match d (Base (ToSlash ''docs/a/b.md'')))"
    by code_simp
  have vb: "(let d = TrimSuffix (ToSlash (TrimPrefix ''!foo'' ''!'')) ''/'' in
      (d \<noteq> [] \<and> (ToSlash ''bar/foo'' = d \<or> HasPrefix (ToSlash ''bar/foo'') (d @ ''/'')))
         \<or> path_Match d (ToSlash ''bar/foo'') \<or> path_Match d (Base (ToSlash ''bar/foo'')))"
    by code_simp
  have vc: "\<not> (let d = TrimSuffix (ToSlash (TrimPrefix ''docs/'' ''!'')) ''/'' in
      (d \<noteq> [] \<and> (ToSlash ''docsx/a'' = d \<or> HasPrefix (ToSlash ''docsx/a'') (d @ ''/'')))
         \<or> path_Match d (ToSlash ''docsx/a'') \<or> path_Match d (Base (ToSlash ''docsx/a'')))"
    by code_simp
  have "checkFilter ''docs/a/b.md'' [''docs/''] = (\<not> HasPrefix ''docs/'' ''!'', ''docs/'')"
    using checkFilter_directory_rule [OF a] va by (simp add: Let_def)
  moreover have "checkFilter ''bar/foo'' [''!foo''] = (\<not> HasPrefix ''!foo'' ''!'', ''!foo'')"
    using checkFilter_directory_rule [OF b] vb by (simp add: Let_def)
  moreover have "checkFilter ''docsx/a'' [''docs/''] = (False, [])"
    using checkFilter_directory_rule [OF c a(2,3)] vc by (simp add: Let_def)
  ultimately show ?thesis by (simp add: HasPrefix_def)
qed

text \<open>
  The rule \<^verbatim>\<open>foo\<close> does not end in \<^verbatim>\<open>/*\<close>, and it matches the path \<^verbatim>\<open>bar/foo\<close>, which is
  neither \<^verbatim>\<open>foo\<close> nor below \<^verbatim>\<open>foo/\<close>: the pattern \<^verbatim>\<open>foo\<close> matches the last element.
\<close>

theorem checkFilter_directory_rule_counterexample:
  "\<not> HasSuffix (ToSlash (TrimPrefix ''foo'' ''!'')) ''/*''
   \<and> TrimSuffix (ToSlash (TrimPrefix ''foo'' ''!'')) ''/'' = ''foo''
   \<and> checkFilter ''bar/foo'' [''foo''] = (True, ''foo'')
   \<and> \<not> (''bar/foo'' = ''foo'' \<or> HasPrefix ''bar/foo'' (''foo'' @ ''/''))"
  by code_simp
subsection \<open>The content serializer\<close>

text \<open>
  Claim C6. Take a file whose content has a zero byte among its first 512 bytes. If its
  lower-case extension is not a key of \<^verbatim>\<open>TextExts\<close>, \<^verbatim>\<open>processFile\<close> writes nothing to the
  document. If it is, the sniff is not consulted: provided that the other gates pass
  (stat, not a directory, size, encoding), the block for the file is written, and the
  only notices are those of the encoding step and the progress line.
\<close>

theorem binary_gate:
  assumes "ReadFile e path = Some content"
    and "CHR 0x00 \<in> set (take 512 content)"
  shows "(\<not> lookup (TextExts cfg) (ToLower (toLowerCase e) (Ext path))
            \<longrightarrow> writer (processFile e cfg path out) = writer out)
       \<and> (lookup (TextExts cfg) (ToLower (toLowerCase e) (Ext path))
            \<and> Stat e path = Some info \<and> \<not> infoIsDir info \<and> Size info \<le> MaxFileSize cfg
            \<and> convertToUTF8 e content = Inr (utf8Content, encoding)
            \<longrightarrow> processFile e cfg path out
                  = emit (fileBlock (ToSlash path) (codeBlockLang (ToLower (toLowerCase e) (Ext path))) utf8Content)
                      (say (Processing path)
                         (if encoding \<noteq> ''UTF-8'' then say (InfoConverted encoding path) out
                          else out)))"
  using assms
  by (auto simp: processFile_def isBinary_def say_def emit_def Let_def min_def
      split: option.splits sum.splits if_splits)

theorem binary_gate_witness:
  "writer (processFile (plainEnv sampleFiles) config ''/r/a.bin'' noOutput) = []
   \<and> processFile (plainEnv sampleFiles) config ''/r/a.go'' noOutput
       = \<lparr>writer = [''## File: /r/a.go\<newline>\<newline>'', ''```go\<newline>'', [CHR ''a'', CHR 0x00], ''\<newline>'',
                     ''```\<newline>\<newline>'', ''---\<newline>\<newline>''],
          console = [Processing ''/r/a.go'']\<rparr>"
proof -
  let ?e = "plainEnv sampleFiles"
  have r1: "ReadFile ?e ''/r/a.bin'' = Some [CHR ''a'', CHR 0x00]"
    and r2: "ReadFile ?e ''/r/a.go'' = Some [CHR ''a'', CHR 0x00]"
    and z: "CHR 0x00 \<in> set (take 512 [CHR ''a'', CHR 0x00])"
    by (simp_all add: plainEnv_def sampleFiles_def)
  have n1: "\<not> lookup (TextExts config) (ToLower (toLowerCase ?e) (Ext ''/r/a.bin''))"
    by code_simp
  have g: "lookup (TextExts config) (ToLower (toLowerCase ?e) (Ext ''/r/a.go''))
      \<and> Stat ?e ''/r/a.go'' = Some \<lparr>infoIsDir = False, Size = 2\<rparr>
      \<and> \<not> infoIsDir \<lparr>infoIsDir = False, Size = 2\<rparr>
      \<and> Size \<lparr>infoIsDir = False, Size = 2\<rparr> \<le> MaxFileSize config
      \<and> convertToUTF8 ?e [CHR ''a'', CHR 0x00] = Inr ([CHR ''a'', CHR 0x00], ''UTF-8'')"
    by code_simp
  have "writer (processFile ?e config ''/r/a.bin'' noOutput) = writer noOutput"
    using binary_gate [OF r1 z] n1 by blast
  moreover have "processFile ?e config ''/r/a.go'' noOutput
      = emit (fileBlock (ToSlash ''/r/a.go'') (codeBlockLang (ToLower (toLowerCase ?e) (Ext ''/r/a.go''))) [CHR ''a'', CHR 0x00])
          (say (Processing ''/r/a.go'')
             (if ''UTF-8'' \<noteq> ''UTF-8'' then say (InfoConverted ''UTF-8'' ''/r/a.go'') noOutput
              else noOutput))"
    using binary_gate [OF r2 z] g by blast
  moreover have "ToSlash ''/r/a.go'' = ''/r/a.go''" "codeBlockLang (ToLower (toLowerCase ?e) (Ext ''/r/a.go'')) = ''go''"
    by code_simp+
  ultimately show ?thesis
    by (simp add: noOutput_def emit_def say_def fileBlock_def)
qed

subsection \<open>The encoding step\<close>

text \<open>
  The rune encoder writes well-formed UTF-8 for every rune: the bytes of
  \<open>EncodeRune r\<close> in front of a string do not change whether it is valid. The lemmas
  before it bound the quotients that make up the bytes.
\<close>

lemma div_range:
  fixes r :: int
  assumes "lo \<le> r" "r \<le> hi" "0 < k"
  shows "lo div k \<le> r div k \<and> r div k \<le> hi div k"
  using assms by (simp add: zdiv_mono1)

lemma mod64_le: "(n :: int) mod 64 \<le> 63" "0 \<le> (n :: int) mod 64"
proof -
  have "n mod 64 < 64" by simp
  then show "n mod 64 \<le> 63" by linarith
  show "0 \<le> n mod 64" by simp
qed

lemma div_div_64: "(r :: int) div 64 div 64 = r div 4096" "(r :: int) div 4096 div 64 = r div 262144"
  by (simp_all add: zdiv_zmult2_eq [symmetric])

lemma mod_as_diff: "(q :: int) mod 64 = q - 64 * (q div 64)"
  by (simp add: minus_mult_div_eq_mod)

lemma lead2: fixes r :: int assumes "0x7F < r" "r \<le> 0x7FF"
  shows "2 \<le> r div 64" "r div 64 \<le> 31"
proof -
  have "128 \<le> r" using assms(1) by simp
  from div_range [OF this assms(2), of 64] show "2 \<le> r div 64" "r div 64 \<le> 31" by simp_all
qed

lemma lead3: fixes r :: int assumes "0x7FF < r" "r \<le> 0xFFFF"
  shows "0 \<le> r div 4096" "r div 4096 \<le> 15" "r div 4096 = 0 \<Longrightarrow> 32 \<le> r div 64 mod 64"
    "r div 4096 = 0 \<Longrightarrow> r div 64 \<le> 63"
proof -
  have lo: "2048 \<le> r" using assms(1) by simp
  from div_range [OF lo assms(2), of 4096] show "0 \<le> r div 4096" "r div 4096 \<le> 15" by simp_all
  assume z: "r div 4096 = 0"
  from div_range [OF lo assms(2), of 64] have "32 \<le> r div 64" by simp
  moreover have "r div 64 mod 64 = r div 64" by (simp add: mod_as_diff div_div_64 z)
  ultimately show "32 \<le> r div 64 mod 64" by simp
next
  assume z: "r div 4096 = 0"
  have "r div 64 mod 64 = r div 64" by (simp add: mod_as_diff div_div_64 z)
  then show "r div 64 \<le> 63" using mod64_le(1) [of "r div 64"] by simp
qed

lemma lead3_ed: fixes r :: int assumes "r div 4096 = 13" "\<not> (0xD800 \<le> r \<and> r \<le> 0xDFFF)"
  shows "r div 64 mod 64 \<le> 31"
proof -
  have m: "r div 64 mod 64 = r div 64 - 832" by (simp add: mod_as_diff div_div_64 assms(1))
  have "r < 57344"
  proof (rule ccontr)
    assume "\<not> r < 57344"
    then have "57344 \<le> r" by simp
    then have "57344 div 4096 \<le> r div 4096" by (simp add: zdiv_mono1)
    then show False using assms(1) by simp
  qed
  then have "r \<le> 55295" using assms(2) by linarith
  then have "r div 64 \<le> 55295 div 64" by (simp add: zdiv_mono1)
  then show ?thesis using m by simp
qed

lemma lead4: fixes r :: int assumes "0xFFFF < r" "r \<le> 0x10FFFF"
  shows "0 \<le> r div 262144" "r div 262144 \<le> 4"
    "r div 262144 = 0 \<Longrightarrow> 16 \<le> r div 4096 mod 64"
    "r div 262144 = 4 \<Longrightarrow> r div 4096 mod 64 \<le> 15"
    "r div 262144 = 0 \<Longrightarrow> r div 4096 \<le> 63"
proof -
  have lo: "65536 \<le> r" using assms(1) by simp
  from div_range [OF lo assms(2), of 262144] show "0 \<le> r div 262144" "r div 262144 \<le> 4" by simp_all
  from div_range [OF lo assms(2), of 4096] have b: "16 \<le> r div 4096" "r div 4096 \<le> 271" by simp_all
  { assume z: "r div 262144 = 0"
    have "r div 4096 mod 64 = r div 4096" by (simp add: mod_as_diff div_div_64 z)
    then show "16 \<le> r div 4096 mod 64" using b by simp }
  { assume z: "r div 262144 = 4"
    have "r div 4096 mod 64 = r div 4096 - 256" by (simp add: mod_as_diff div_div_64 z)
    then show "r div 4096 mod 64 \<le> 15" using b by simp }
  { assume z: "r div 262144 = 0"
    have "r div 4096 mod 64 = r div 4096" by (simp add: mod_as_diff div_div_64 z)
    then show "r div 4096 \<le> 63" using mod64_le(1) [of "r div 4096"] by simp }
qed


lemma of_char_char_of_byte:
  "0 \<le> k \<Longrightarrow> k \<le> 255 \<Longrightarrow> (of_char (char_of (k :: int)) :: int) = k"
  by simp

lemma byteIn_char_of:
  "0 \<le> k \<Longrightarrow> k \<le> 255 \<Longrightarrow> byteIn lo hi (char_of (k :: int)) \<longleftrightarrow> lo \<le> k \<and> k \<le> hi"
  by (simp add: byteIn_def)

lemma valid1: "(of_char c0 :: int) < 0x80 \<Longrightarrow> utf8_Valid (c0 # rest) = utf8_Valid rest"
  by simp

lemma valid2:
  assumes "(of_char c0 :: int) = x" "0xC2 \<le> x" "x \<le> 0xDF" "byteIn 0x80 0xBF c1"
  shows "utf8_Valid (c0 # c1 # rest) = utf8_Valid rest"
  using assms by simp

lemma valid3:
  assumes "(of_char c0 :: int) = x" "0xE0 \<le> x" "x \<le> 0xEF"
    "byteIn (if x = 0xE0 then 0xA0 else 0x80) (if x = 0xED then 0x9F else 0xBF) c1"
    "byteIn 0x80 0xBF c2"
  shows "utf8_Valid (c0 # c1 # c2 # rest) = utf8_Valid rest"
  using assms by simp

lemma valid4:
  assumes "(of_char c0 :: int) = x" "0xF0 \<le> x" "x \<le> 0xF4"
    "byteIn (if x = 0xF0 then 0x90 else 0x80) (if x = 0xF4 then 0x8F else 0xBF) c1"
    "byteIn 0x80 0xBF c2" "byteIn 0x80 0xBF c3"
  shows "utf8_Valid (c0 # c1 # c2 # c3 # rest) = utf8_Valid rest"
  using assms by simp

lemma cont_byte: "byteIn 0x80 0xBF (char_of (0x80 + (k :: int) mod 64))"
proof -
  have "0 \<le> 0x80 + k mod 64" "0x80 + k mod 64 \<le> 255" using mod64_le [of k] by simp_all
  from byteIn_char_of [OF this] show ?thesis using mod64_le [of k] by simp
qed

lemma utf8_Valid_EncodeRune: "utf8_Valid (EncodeRune r @ rest) = utf8_Valid rest"
proof -
  consider "r < 0 \<or> 0x10FFFF < r \<or> (0xD800 \<le> r \<and> r \<le> 0xDFFF)"
    | "0 \<le> r" "r \<le> 0x7F"
    | "0x7F < r" "r \<le> 0x7FF"
    | "0x7FF < r" "r \<le> 0xFFFF" "\<not> (0xD800 \<le> r \<and> r \<le> 0xDFFF)"
    | "0xFFFF < r" "r \<le> 0x10FFFF"
    by linarith
  then show ?thesis
  proof cases
    case 1
    then have "EncodeRune r = [CHR 0xEF, CHR 0xBF, CHR 0xBD]" by (simp add: EncodeRune_def)
    then show ?thesis by (simp add: byteIn_def)
  next
    case 2
    then have "EncodeRune r = [char_of r]" by (simp add: EncodeRune_def)
    moreover have "(of_char (char_of r) :: int) < 0x80" using 2 by simp
    ultimately show ?thesis using valid1 by simp
  next
    case 3
    then have e: "EncodeRune r = [char_of (0xC0 + r div 64), char_of (0x80 + r mod 64)]"
      by (simp add: EncodeRune_def)
    note a = lead2 [OF 3]
    have x: "(of_char (char_of (0xC0 + r div 64)) :: int) = 0xC0 + r div 64"
      using a by (intro of_char_char_of_byte) simp_all
    show ?thesis unfolding e using valid2 [OF x _ _ cont_byte [of r], of rest] a by simp
  next
    case 4
    then have e: "EncodeRune r = [char_of (0xE0 + r div 4096), char_of (0x80 + r div 64 mod 64),
        char_of (0x80 + r mod 64)]"
      by (auto simp: EncodeRune_def)
    note a = lead3 [OF 4(1,2)] lead3_ed [OF _ 4(3)]
    note m = mod64_le [of "r div 64"]
    have x: "(of_char (char_of (0xE0 + r div 4096)) :: int) = 0xE0 + r div 4096"
      using a by (intro of_char_char_of_byte) simp_all
    have b1: "0 \<le> 0x80 + r div 64 mod 64" "0x80 + r div 64 mod 64 \<le> 255" using m by simp_all
    have c1: "byteIn (if 0xE0 + r div 4096 = 0xE0 then 0xA0 else 0x80)
                (if 0xE0 + r div 4096 = 0xED then 0x9F else 0xBF) (char_of (0x80 + r div 64 mod 64))"
      unfolding byteIn_char_of [OF b1] using a m by simp
    show ?thesis unfolding e
      using valid3 [OF x _ _ c1 cont_byte [of r], of rest] a by simp
  next
    case 5
    then have e: "EncodeRune r = [char_of (0xF0 + r div 262144), char_of (0x80 + r div 4096 mod 64),
         char_of (0x80 + r div 64 mod 64), char_of (0x80 + r mod 64)]"
      by (simp add: EncodeRune_def)
    note a = lead4 [OF 5]
    note m = mod64_le [of "r div 4096"]
    have x: "(of_char (char_of (0xF0 + r div 262144)) :: int) = 0xF0 + r div 262144"
      using a by (intro of_char_char_of_byte) simp_all
    have b1: "0 \<le> 0x80 + r div 4096 mod 64" "0x80 + r div 4096 mod 64 \<le> 255" using m by simp_all
    have c1: "byteIn (if 0xF0 + r div 262144 = 0xF0 then 0x90 else 0x80)
                (if 0xF0 + r div 262144 = 0xF4 then 0x8F else 0xBF) (char_of (0x80 + r div 4096 mod 64))"
      unfolding byteIn_char_of [OF b1] using a m by simp
    show ?thesis unfolding e
      using valid4 [OF x _ _ c1 cont_byte [of "r div 64"] cont_byte [of r], of rest] a by simp
  qed
qed

text \<open>
  So the GBK decoder, which writes nothing but encoded runes, returns valid UTF-8 for
  every table and every input, and \<^verbatim>\<open>convertToUTF8\<close> never returns its error.
\<close>

lemma utf8_Valid_gbkTransform: "utf8_Valid (gbkTransform decode src)"
proof (induction decode src rule: gbkTransform.induct)
  case (1 decode)
  show ?case by simp
next
  case (2 decode b src)
  have e: "utf8_Valid (EncodeRune RuneError)"
    using utf8_Valid_EncodeRune [of RuneError "[]"] by simp
  show ?case
    unfolding gbkTransform.simps(2) [of decode b src] using 2 e
    by (simp add: Let_def utf8_Valid_EncodeRune del: gbkTransform.simps utf8_Valid.simps
        split: list.splits)
qed

lemma convertToUTF8_never_fails: "convertToUTF8 e content \<noteq> Inl err"
  by (simp add: convertToUTF8_def readAllGBK_def utf8_Valid_gbkTransform)

text \<open>
  What \<^verbatim>\<open>processFile\<close> does with a file that reaches the encoding step (stat, size and
  read succeed, and the file is forced text or has no zero byte in its first 512
  bytes). Valid UTF-8 is written as it is, with no conversion notice. Everything else
  is written in the form the GBK decoder gives it, after the conversion notice. The
  warning about an unknown encoding is never printed.
\<close>

lemma encoding_step:
  assumes "Stat e path = Some info" and "\<not> infoIsDir info" and "Size info \<le> MaxFileSize cfg"
    and "ReadFile e path = Some content"
    and "lookup (TextExts cfg) (ToLower (toLowerCase e) (Ext path)) \<or> \<not> isBinary content"
  shows "(utf8_Valid content \<longrightarrow>
            processFile e cfg path out
              = emit (fileBlock (ToSlash path) (codeBlockLang (ToLower (toLowerCase e) (Ext path))) content)
                  (say (Processing path) out))
       \<and> (\<not> utf8_Valid content \<longrightarrow>
            processFile e cfg path out
              = emit (fileBlock (ToSlash path) (codeBlockLang (ToLower (toLowerCase e) (Ext path)))
                        (gbkTransform (gbkDecode e) content))
                  (say (Processing path) (say (InfoConverted ''GBK/GB18030'' path) out)))"
  using assms
  by (auto simp: processFile_def convertToUTF8_def readAllGBK_def utf8_Valid_gbkTransform
      say_def emit_def Let_def split: option.splits sum.splits if_splits)

text \<open>
  Claim C7, at inputs that are neither valid UTF-8 nor GBK. \<^verbatim>\<open>/r/bad\<close> holds the single
  byte B0, the first half of a GBK code with nothing after it; \<^verbatim>\<open>/r/worse\<close> holds the
  bytes FF FE, of which FF occurs in no GBK code. The program does not skip these files:
  it writes a content block for each, with U+FFFD (the bytes EF BF BD) in place of
  every byte that the decoder could not read, prints the conversion notice and no
  warning. The file \<^verbatim>\<open>/r/gbk\<close>, the GBK code B0 A1, is converted as the claim says.
\<close>

theorem undecodable_not_skipped:
  "\<not> utf8_Valid [CHR 0xB0]
   \<and> processFile (plainEnv sampleFiles) config ''/r/bad'' noOutput
       = \<lparr>writer = [''## File: /r/bad\<newline>\<newline>'', ''```text\<newline>'', [CHR 0xEF, CHR 0xBF, CHR 0xBD], ''\<newline>'',
                     ''```\<newline>\<newline>'', ''---\<newline>\<newline>''],
          console = [InfoConverted ''GBK/GB18030'' ''/r/bad'', Processing ''/r/bad'']\<rparr>
   \<and> \<not> utf8_Valid [CHR 0xFF, CHR 0xFE]
   \<and> processFile (plainEnv sampleFiles) config ''/r/worse'' noOutput
       = \<lparr>writer = [''## File: /r/worse\<newline>\<newline>'', ''```text\<newline>'',
                     [CHR 0xEF, CHR 0xBF, CHR 0xBD, CHR 0xEF, CHR 0xBF, CHR 0xBD], ''\<newline>'',
                     ''```\<newline>\<newline>'', ''---\<newline>\<newline>''],
          console = [InfoConverted ''GBK/GB18030'' ''/r/worse'', Processing ''/r/worse'']\<rparr>
   \<and> processFile (plainEnv sampleFiles) config ''/r/gbk'' noOutput
       = \<lparr>writer = [''## File: /r/gbk\<newline>\<newline>'', ''```text\<newline>'', [CHR 0xE5, CHR 0x95, CHR 0x8A], ''\<newline>'',
                     ''```\<newline>\<newline>'', ''---\<newline>\<newline>''],
          console = [InfoConverted ''GBK/GB18030'' ''/r/gbk'', Processing ''/r/gbk'']\<rparr>"
  by code_simp

subsection \<open>The shape of a content block\<close>

text \<open>
  Claim C8, as the program has it. For a file that passes all gates the block is the
  heading, the opening fence, the content, one added newline exactly when the content
  is not empty and does not end in a newline, the closing fence and the rule. So the
  closing fence always follows a newline directly; the newlines that the content
  already ends in are kept as they are, and an empty content stays empty.
\<close>

theorem content_block_newline:
  assumes "Stat e path = Some info" and "\<not> infoIsDir info" and "Size info \<le> MaxFileSize cfg"
    and "ReadFile e path = Some content"
    and "lookup (TextExts cfg) (ToLower (toLowerCase e) (Ext path)) \<or> \<not> isBinary content"
    and "convertToUTF8 e content = Inr (utf8Content, encoding)"
  shows "writer (processFile e cfg path out)
           = writer out
             @ [''## File: '' @ ToSlash path @ ''\<newline>\<newline>'',
                ''```'' @ codeBlockLang (ToLower (toLowerCase e) (Ext path)) @ ''\<newline>'',
                utf8Content]
             @ (if utf8Content \<noteq> [] \<and> last utf8Content \<noteq> CHR 0x0A then [''\<newline>''] else [])
             @ [''```\<newline>\<newline>'', ''---\<newline>\<newline>'']
       \<and> last (concat (butlast (butlast (writer (processFile e cfg path out))))) = CHR 0x0A"
  using assms
  by (auto simp: processFile_def say_def emit_def Let_def fileBlock_def butlast_append
      split: option.splits sum.splits if_splits)

theorem content_block_newline_witness:
  "writer (processFile (plainEnv sampleFiles) config ''/r/none.txt'' noOutput)
       = [''## File: /r/none.txt\<newline>\<newline>'', ''```txt\<newline>'', ''a'', ''\<newline>'', ''```\<newline>\<newline>'', ''---\<newline>\<newline>'']
   \<and> writer (processFile (plainEnv sampleFiles) config ''/r/empty.txt'' noOutput)
       = [''## File: /r/empty.txt\<newline>\<newline>'', ''```txt\<newline>'', [], ''```\<newline>\<newline>'', ''---\<newline>\<newline>'']"
proof -
  let ?e = "plainEnv sampleFiles"
  have a: "Stat ?e ''/r/none.txt'' = Some \<lparr>infoIsDir = False, Size = 1\<rparr>"
      "\<not> infoIsDir \<lparr>infoIsDir = False, Size = 1\<rparr>"
      "Size \<lparr>infoIsDir = False, Size = 1\<rparr> \<le> MaxFileSize config"
      "ReadFile ?e ''/r/none.txt'' = Some ''a''"
      "lookup (TextExts config) (ToLower (toLowerCase ?e) (Ext ''/r/none.txt'')) \<or> \<not> isBinary ''a''"
      "convertToUTF8 ?e ''a'' = Inr (''a'', ''UTF-8'')"
    by code_simp+
  have b: "Stat ?e ''/r/empty.txt'' = Some \<lparr>infoIsDir = False, Size = 0\<rparr>"
      "\<not> infoIsDir \<lparr>infoIsDir = False, Size = 0\<rparr>"
      "Size \<lparr>infoIsDir = False, Size = 0\<rparr> \<le> MaxFileSize config"
      "ReadFile ?e ''/r/empty.txt'' = Some []"
      "lookup (TextExts config) (ToLower (toLowerCase ?e) (Ext ''/r/empty.txt'')) \<or> \<not> isBinary []"
      "convertToUTF8 ?e [] = Inr ([], ''UTF-8'')"
    by code_simp+
  have l: "ToSlash ''/r/none.txt'' = ''/r/none.txt''"
      "codeBlockLang (ToLower (toLowerCase ?e) (Ext ''/r/none.txt'')) = ''txt''"
      "ToSlash ''/r/empty.txt'' = ''/r/empty.txt''"
      "codeBlockLang (ToLower (toLowerCase ?e) (Ext ''/r/empty.txt'')) = ''txt''"
    by code_simp+
  show ?thesis
    using content_block_newline [OF a, of noOutput] content_block_newline [OF b, of noOutput]
    by (simp add: l noOutput_def)
qed

text \<open>
  The file \<^verbatim>\<open>/r/two.txt\<close> holds \<^verbatim>\<open>a\<close> and two newlines. Its block keeps both: the text
  written before the closing fence ends in two newlines, not in exactly one.
\<close>

theorem content_block_newline_counterexample:
  "ReadFile (plainEnv sampleFiles) ''/r/two.txt'' = Some ''a\<newline>\<newline>''
   \<and> writer (processFile (plainEnv sampleFiles) config ''/r/two.txt'' noOutput)
       = [''## File: /r/two.txt\<newline>\<newline>'', ''```txt\<newline>'', ''a\<newline>\<newline>'', ''```\<newline>\<newline>'', ''---\<newline>\<newline>'']
   \<and> concat (take 3 (writer (processFile (plainEnv sampleFiles) config ''/r/two.txt'' noOutput)))
       = ''## File: /r/two.txt\<newline>\<newline>```txt\<newline>a'' @ [CHR 0x0A, CHR 0x0A]"
  by code_simp

subsection \<open>The tree renderer\<close>

lemma writeTree_Suc:
  "writeTree (Suc fuel) e cfg rootFS rootLogical currentFS currentLogical prefix hardFilters st =
     (case ReadDir e currentFS of
        Inl err \<Rightarrow> Some (Some err, st)
      | Inr entries \<Rightarrow>
          (let final = finalEntries cfg rootLogical currentLogical hardFilters entries
           in case treeLoop (treeDescend fuel e cfg rootFS rootLogical hardFilters)
                e currentFS currentLogical prefix (length final) 0 final st of
                None \<Rightarrow> None
              | Some st' \<Rightarrow> Some (None, st')))"
  by (simp add: treeDescend_def split: sum.splits)

lemma treeLoop_append:
  "treeLoop D e c cl p n i (xs @ ys) st =
     (case treeLoop D e c cl p n i xs st of
        None \<Rightarrow> None
      | Some st1 \<Rightarrow> treeLoop D e c cl p n (i + length xs) ys st1)"
  by (induction xs arbitrary: i st) (auto split: option.splits)

lemma treeEntry_leaf:
  assumes "\<not> fst (followDir e x (Join c (Name x)))"
  shows "treeEntry D e c cl p isLast x (w, seen) = Some (w @ [treeLine e c p isLast x], seen)"
proof -
  obtain pth where "followDir e x (Join c (Name x)) = (False, pth)"
    using assms by (cases "followDir e x (Join c (Name x))") auto
  then show ?thesis by (simp add: treeEntry.simps)
qed

lemma treeLoop_leaves_mid:
  assumes "\<forall>x \<in> set ys. \<not> fst (followDir e x (Join c (Name x)))"
    and "i + length ys < n"
  shows "treeLoop D e c cl p n i ys (w, seen) = Some (w @ map (treeLine e c p False) ys, seen)"
  using assms
proof (induction ys arbitrary: i w)
  case Nil
  show ?case by simp
next
  case (Cons y ys)
  have nl: "int i \<noteq> int n - 1" using Cons.prems(2) by simp
  have "treeLoop D e c cl p n (Suc i) ys (w @ [treeLine e c p False y], seen)
          = Some ((w @ [treeLine e c p False y]) @ map (treeLine e c p False) ys, seen)"
    using Cons.prems by (intro Cons.IH) auto
  then show ?case
    using nl Cons.prems(1) by (simp add: treeEntry_leaf)
qed

lemma treeLoop_leaves_last:
  assumes "\<forall>x \<in> set ys. \<not> fst (followDir e x (Join c (Name x)))"
    and "ys \<noteq> []" and "i + length ys = n"
  shows "treeLoop D e c cl p n i ys (w, seen)
           = Some (w @ map (treeLine e c p False) (butlast ys) @ [treeLine e c p True (last ys)], seen)"
proof -
  have split: "ys = butlast ys @ [last ys]" using assms(2) by simp
  have mid: "treeLoop D e c cl p n i (butlast ys) (w, seen)
               = Some (w @ map (treeLine e c p False) (butlast ys), seen)"
    using assms by (intro treeLoop_leaves_mid) (auto dest: in_set_butlastD)
  have il: "int (i + length (butlast ys)) = int n - 1" using assms(2,3) by (cases ys) auto
  have nd: "\<not> fst (followDir e (last ys) (Join c (Name (last ys))))"
    using assms(1,2) last_in_set [of ys] by blast
  have "treeLoop D e c cl p n i (butlast ys @ [last ys]) (w, seen)
          = Some (w @ map (treeLine e c p False) (butlast ys) @ [treeLine e c p True (last ys)], seen)"
    unfolding treeLoop_append mid using il
    by (simp add: treeEntry_leaf [OF nd])
  then show ?thesis using split by simp
qed

lemma showInt_14: "showInt 14 = ''14''"
  by code_simp

lemma foldFiles_thirty:
  assumes "\<not> NoFold cfg" and "length files = 30"
  shows "foldFiles cfg files
           = take 8 files @ [SimpleDirEntry ''... (14 files hidden) ...''] @ drop 22 files"
  using assms
  by (simp add: foldFiles_def maxDisplayFiles_def keepHeadFiles_def keepTailFiles_def showInt_14)

lemma followDir_Simple: "\<not> fst (followDir e (SimpleDirEntry name) path)"
  by (simp add: followDir_def SimpleDirEntry_def)


text \<open>
  Claim C4, as the program has it. Take a directory that can be read, with folding enabled, whose entries that
  pass the tree filter hold exactly 30 files, none of them a symbolic link to a
  directory. Then the entries to render are all visible directories, unfolded, followed
  by the first 8 files, one synthetic entry \<^verbatim>\<open>... (14 files hidden) ...\<close> and the last 8
  files. \<^verbatim>\<open>writeTree\<close> renders the directories (with their subtrees) and then writes
  exactly these 17 lines: the first 8 files in read order, the line of the synthetic
  entry, the next 7 files, and the last file with the marker of the last sibling.
\<close>

theorem tree_folds_thirty_files:
  assumes "ReadDir e currentFS = Inr entries"
    and "\<not> NoFold cfg"
    and "visible = filter (treeVisible cfg rootLogical currentLogical hardFilters) entries"
    and "dirs = filter IsDir visible"
    and "files = filter (\<lambda>x. \<not> IsDir x) visible"
    and "length files = 30"
    and "\<forall>x \<in> set files. \<not> fst (followDir e x (Join currentFS (Name x)))"
  shows "finalEntries cfg rootLogical currentLogical hardFilters entries
           = dirs @ take 8 files @ [SimpleDirEntry ''... (14 files hidden) ...''] @ drop 22 files
       \<and> writeTree (Suc fuel) e cfg rootFS rootLogical currentFS currentLogical prefix hardFilters st
           = (case treeLoop (treeDescend fuel e cfg rootFS rootLogical hardFilters)
                     e currentFS currentLogical prefix (length dirs + 17) 0 dirs st of
                None \<Rightarrow> None
              | Some (w, seen) \<Rightarrow>
                  Some (None,
                    (w @ map (treeLine e currentFS prefix False) (take 8 files)
                       @ [prefix @ markerMid @ ''... (14 files hidden) ...'' @ ''\<newline>'']
                       @ map (treeLine e currentFS prefix False) (take 7 (drop 22 files))
                       @ [treeLine e currentFS prefix True (last files)],
                     seen)))
       \<and> length (map (treeLine e currentFS prefix False) (take 8 files)
                 @ [prefix @ markerMid @ ''... (14 files hidden) ...'' @ ''\<newline>'']
                 @ map (treeLine e currentFS prefix False) (take 7 (drop 22 files))
                 @ [treeLine e currentFS prefix True (last files)]) = 17"
proof -
  let ?S = "SimpleDirEntry ''... (14 files hidden) ...''"
  let ?F = "take 8 files @ [?S] @ drop 22 files"
  have fin: "finalEntries cfg rootLogical currentLogical hardFilters entries = dirs @ ?F"
    using assms(2-6) by (simp add: finalEntries_def foldFiles_thirty)
  have lenF: "length ?F = 17" using assms(6) by simp
  have leaves: "\<forall>x \<in> set ?F. \<not> fst (followDir e x (Join currentFS (Name x)))"
    using assms(7) followDir_Simple by (auto dest: in_set_takeD in_set_dropD)
  have bl: "butlast ?F = take 8 files @ [?S] @ take 7 (drop 22 files)"
    using assms(6) by (simp add: butlast_append butlast_conv_take)
  have la: "last ?F = last files" using assms(6) by simp
  have line: "treeLine e currentFS prefix False ?S
                = prefix @ markerMid @ ''... (14 files hidden) ...'' @ ''\<newline>''"
    by (simp add: treeLine_def displayName_def SimpleDirEntry_def)
  have files_part: "treeLoop D e currentFS currentLogical prefix (length dirs + 17)
                      (0 + length dirs) ?F (w, seen)
           = Some (w @ map (treeLine e currentFS prefix False) (take 8 files)
                     @ [prefix @ markerMid @ ''... (14 files hidden) ...'' @ ''\<newline>'']
                     @ map (treeLine e currentFS prefix False) (take 7 (drop 22 files))
                     @ [treeLine e currentFS prefix True (last files)], seen)" for D w seen
    using treeLoop_leaves_last [OF leaves, of "0 + length dirs" "length dirs + 17" D currentLogical prefix w seen]
      lenF bl la line by simp
  let ?D = "treeDescend fuel e cfg rootFS rootLogical hardFilters"
  have n: "length (dirs @ ?F) = length dirs + 17" using lenF by simp
  have wt: "writeTree (Suc fuel) e cfg rootFS rootLogical currentFS currentLogical prefix hardFilters st
          = (case treeLoop ?D e currentFS currentLogical prefix (length dirs + 17) 0 (dirs @ ?F) st of
               None \<Rightarrow> None
             | Some st' \<Rightarrow> Some (None, st'))"
    unfolding writeTree_Suc by (simp only: assms(1) sum.case Let_def fin n)
  have "writeTree (Suc fuel) e cfg rootFS rootLogical currentFS currentLogical prefix hardFilters st
          = (case treeLoop ?D e currentFS currentLogical prefix (length dirs + 17) 0 dirs st of
                None \<Rightarrow> None
              | Some (w, seen) \<Rightarrow>
                  Some (None,
                    (w @ map (treeLine e currentFS prefix False) (take 8 files)
                       @ [prefix @ markerMid @ ''... (14 files hidden) ...'' @ ''\<newline>'']
                       @ map (treeLine e currentFS prefix False) (take 7 (drop 22 files))
                       @ [treeLine e currentFS prefix True (last files)],
                     seen)))"
  proof (cases "treeLoop ?D e currentFS currentLogical prefix (length dirs + 17) 0 dirs st")
    case None
    then show ?thesis
      by (simp only: wt treeLoop_append [of _ _ _ _ _ _ _ dirs ?F] option.case)
  next
    case (Some st1)
    obtain w1 seen1 where st1: "st1 = (w1, seen1)" by (cases st1)
    show ?thesis
      by (simp only: wt treeLoop_append [of _ _ _ _ _ _ _ dirs ?F] Some st1 option.case
          prod.case files_part)
  qed
  moreover have "length (map (treeLine e currentFS prefix False) (take 8 files)
                 @ [prefix @ markerMid @ ''... (14 files hidden) ...'' @ ''\<newline>'']
                 @ map (treeLine e currentFS prefix False) (take 7 (drop 22 files))
                 @ [treeLine e currentFS prefix True (last files)]) = 17"
    using assms(6) by simp
  ultimately show ?thesis using fin by blast
qed


theorem tree_folds_thirty_files_witness:
  "writeTree 1 foldEnv config ''/big'' ''/big'' ''/big'' ''/big'' [] [] ([], {})
     = Some (None,
         (map (\<lambda>name. markerMid @ name @ ''\<newline>'')
            [''f10'', ''f11'', ''f12'', ''f13'', ''f14'', ''f15'', ''f16'', ''f17'']
          @ [markerMid @ ''... (14 files hidden) ...'' @ ''\<newline>'']
          @ map (\<lambda>name. markerMid @ name @ ''\<newline>'')
              [''f32'', ''f33'', ''f34'', ''f35'', ''f36'', ''f37'', ''f38'']
          @ [markerLast @ ''f39'' @ ''\<newline>''],
          {}))"
proof -
  let ?vis = "filter (treeVisible config ''/big'' ''/big'' []) manyFiles"
  let ?files = "filter (\<lambda>x. \<not> IsDir x) ?vis"
  have h1: "ReadDir foldEnv ''/big'' = Inr manyFiles" by (simp add: foldEnv_def)
  have h2: "\<not> NoFold config" by (simp add: config_def)
  have h6: "length ?files = 30" by code_simp
  have h7: "\<forall>x \<in> set ?files. \<not> fst (followDir foldEnv x (Join ''/big'' (Name x)))"
    by code_simp
  have d: "filter IsDir ?vis = []" by code_simp
  have l1: "map (treeLine foldEnv ''/big'' [] False) (take 8 ?files)
      = map (\<lambda>name. markerMid @ name @ ''\<newline>'')
            [''f10'', ''f11'', ''f12'', ''f13'', ''f14'', ''f15'', ''f16'', ''f17'']"
    by code_simp
  have l2: "map (treeLine foldEnv ''/big'' [] False) (take 7 (drop 22 ?files))
      = map (\<lambda>name. markerMid @ name @ ''\<newline>'')
            [''f32'', ''f33'', ''f34'', ''f35'', ''f36'', ''f37'', ''f38'']"
    by code_simp
  have l3: "treeLine foldEnv ''/big'' [] True (last ?files) = markerLast @ ''f39'' @ ''\<newline>''"
    by code_simp
  have "writeTree (Suc 0) foldEnv config ''/big'' ''/big'' ''/big'' ''/big'' [] [] ([], {})
      = (case treeLoop (treeDescend 0 foldEnv config ''/big'' ''/big'' [])
                foldEnv ''/big'' ''/big'' [] (length (filter IsDir ?vis) + 17) 0
                (filter IsDir ?vis) ([], {}) of
           None \<Rightarrow> None
         | Some (w, seen) \<Rightarrow>
             Some (None,
               (w @ map (treeLine foldEnv ''/big'' [] False) (take 8 ?files)
                  @ [[] @ markerMid @ ''... (14 files hidden) ...'' @ ''\<newline>'']
                  @ map (treeLine foldEnv ''/big'' [] False) (take 7 (drop 22 ?files))
                  @ [treeLine foldEnv ''/big'' [] True (last ?files)],
                seen)))"
    using tree_folds_thirty_files [OF h1 h2 refl refl refl h6 h7, of 0 "''/big''" "[]" "([], {})"]
    by (rule conjunct1 [OF conjunct2])
  also have "\<dots> = Some (None,
         (map (\<lambda>name. markerMid @ name @ ''\<newline>'')
            [''f10'', ''f11'', ''f12'', ''f13'', ''f14'', ''f15'', ''f16'', ''f17'']
          @ [markerMid @ ''... (14 files hidden) ...'' @ ''\<newline>'']
          @ map (\<lambda>name. markerMid @ name @ ''\<newline>'')
              [''f32'', ''f33'', ''f34'', ''f35'', ''f36'', ''f37'', ''f38'']
          @ [markerLast @ ''f39'' @ ''\<newline>''],
          {}))"
    by (simp only: d l1 l2 l3 treeLoop.simps option.case prod.case append_Nil)
  finally show ?thesis by (simp only: One_nat_def)
qed

text \<open>
  The files are the entries for which \<^verbatim>\<open>IsDir()\<close> is false, and that is false for a
  symbolic link. In \<^verbatim>\<open>/big\<close> of \<open>linkFoldEnv\<close> thirty entries pass the tree filter
  and none is a directory, with folding enabled, but the first one is a link to the
  directory \<^verbatim>\<open>/ext\<close>. The renderer writes its line and then the subtree below it, so
  the section has 18 lines, not 17.
\<close>

theorem tree_folds_thirty_files_counterexample:
  "ReadDir linkFoldEnv ''/big'' = Inr linkedFiles
   \<and> map IsDir (filter (treeVisible config ''/big'' ''/big'' []) linkedFiles) = replicate 30 False
   \<and> \<not> NoFold config
   \<and> writeTree 2 linkFoldEnv config ''/big'' ''/big'' ''/big'' ''/big'' [] [] ([], {})
       = Some (None,
          ([markerMid @ ''f10 -> /ext\<newline>'',
           connector @ markerLast @ ''b.txt\<newline>'',
           markerMid @ ''f11\<newline>'',
           markerMid @ ''f12\<newline>'',
           markerMid @ ''f13\<newline>'',
           markerMid @ ''f14\<newline>'',
           markerMid @ ''f15\<newline>'',
           markerMid @ ''f16\<newline>'',
           markerMid @ ''f17\<newline>'',
           markerMid @ ''... (14 files hidden) ...\<newline>'',
           markerMid @ ''f32\<newline>'',
           markerMid @ ''f33\<newline>'',
           markerMid @ ''f34\<newline>'',
           markerMid @ ''f35\<newline>'',
           markerMid @ ''f36\<newline>'',
           markerMid @ ''f37\<newline>'',
           markerMid @ ''f38\<newline>'',
           markerLast @ ''f39\<newline>''],
           {''/ext''}))"
  by code_simp

subsection \<open>What the tree renderer writes, and that both traversals return\<close>

text \<open>
  \<open>appendsOnly\<close>: a recursive call only adds to the document. \<open>descends D e k\<close>: the
  recursive call \<open>D\<close> returns, with a larger \<^verbatim>\<open>seen\<close>, from every state in which fewer
  than \<open>k\<close> canonical paths are still unseen.
\<close>

definition appendsOnly ::
  "(string \<Rightarrow> string \<Rightarrow> string \<Rightarrow> treeState \<Rightarrow> treeState option) \<Rightarrow> bool" where
  "appendsOnly D \<longleftrightarrow>
     (\<forall>a b c w s w' s'. D a b c (w, s) = Some (w', s') \<longrightarrow> (\<exists>ws. w' = w @ ws))"

definition descends ::
  "(string \<Rightarrow> string \<Rightarrow> string \<Rightarrow> treeState \<Rightarrow> treeState option) \<Rightarrow> env \<Rightarrow> nat \<Rightarrow> bool" where
  "descends D e k \<longleftrightarrow>
     (\<forall>a b c w s. card (ran (EvalSymlinks e) - s) < k \<longrightarrow>
        (\<exists>w' s'. D a b c (w, s) = Some (w', s') \<and> s \<subseteq> s'))"

text \<open>
  Every final entry of a directory gets its line, whatever is rendered below it.
\<close>

lemma treeEntry_line:
  assumes "appendsOnly D"
    and "treeEntry D e c cl p isLast x (w, seen) = Some (w', seen')"
  shows "\<exists>ws. w' = w @ treeLine e c p isLast x # ws"
proof -
  obtain b pth where fd: "followDir e x (Join c (Name x)) = (b, pth)"
    by (cases "followDir e x (Join c (Name x))")
  have D: "D a1 a2 a3 (w @ [treeLine e c p isLast x], s) = Some (w', seen')
        \<Longrightarrow> \<exists>ws. w' = w @ treeLine e c p isLast x # ws" for a1 a2 a3 s
  proof -
    assume "D a1 a2 a3 (w @ [treeLine e c p isLast x], s) = Some (w', seen')"
    then obtain ws where "w' = (w @ [treeLine e c p isLast x]) @ ws"
      using assms(1) unfolding appendsOnly_def by blast
    then show ?thesis by simp
  qed
  show ?thesis
    using assms(2) D
    by (auto simp: treeEntry.simps fd Let_def split: if_splits option.splits)
qed

lemma treeLoop_lines:
  assumes "appendsOnly D"
    and "treeLoop D e c cl p n i xs (w, seen) = Some (w', seen')"
  shows "\<exists>ws. w' = w @ ws \<and> (\<forall>x \<in> set xs. \<exists>isLast. treeLine e c p isLast x \<in> set ws)"
  using assms(2)
proof (induction xs arbitrary: i w seen)
  case Nil
  then show ?case by simp
next
  case (Cons x xs)
  from Cons.prems obtain w1 s1 where
    step: "treeEntry D e c cl p (int i = int n - 1) x (w, seen) = Some (w1, s1)"
    and rest: "treeLoop D e c cl p n (Suc i) xs (w1, s1) = Some (w', seen')"
    by (auto split: option.splits)
  obtain ws1 where w1: "w1 = w @ treeLine e c p (int i = int n - 1) x # ws1"
    using treeEntry_line [OF assms(1) step] by blast
  obtain ws2 where w': "w' = w1 @ ws2"
    and all: "\<forall>y \<in> set xs. \<exists>isLast. treeLine e c p isLast y \<in> set ws2"
    using Cons.IH [OF rest] by blast
  have "w' = w @ (treeLine e c p (int i = int n - 1) x # ws1 @ ws2)"
    using w1 w' by simp
  moreover have "\<forall>y \<in> set (x # xs). \<exists>isLast.
      treeLine e c p isLast y \<in> set (treeLine e c p (int i = int n - 1) x # ws1 @ ws2)"
    using all by auto
  ultimately show ?case by blast
qed

lemma treeDescend_appendsOnly:
  "appendsOnly (treeDescend fuel e cfg rootFS rootLogical hardFilters)"
proof (induction fuel)
  case 0
  show ?case by (simp add: appendsOnly_def treeDescend_def)
next
  case (Suc fuel)
  show ?case
    unfolding appendsOnly_def
  proof (intro allI impI)
    fix a b c w s w' s'
    assume "treeDescend (Suc fuel) e cfg rootFS rootLogical hardFilters a b c (w, s) = Some (w', s')"
    then obtain r where wt: "writeTree (Suc fuel) e cfg rootFS rootLogical a b c hardFilters (w, s)
        = Some (r, (w', s'))"
      by (auto simp: treeDescend_def)
    show "\<exists>ws. w' = w @ ws"
    proof (cases "ReadDir e a")
      case (Inl err)
      with wt show ?thesis by (simp add: writeTree_Suc del: writeTree.simps)
    next
      case (Inr entries)
      with wt have "treeLoop (treeDescend fuel e cfg rootFS rootLogical hardFilters) e a b c
          (length (finalEntries cfg rootLogical b hardFilters entries)) 0
          (finalEntries cfg rootLogical b hardFilters entries) (w, s) = Some (w', s')"
        by (auto simp: writeTree_Suc Let_def simp del: writeTree.simps split: option.splits)
      from treeLoop_lines [OF Suc this] show ?thesis by blast
    qed
  qed
qed

lemma writeTree_lines:
  assumes "ReadDir e currentFS = Inr entries"
    and "writeTree (Suc fuel) e cfg rootFS rootLogical currentFS currentLogical prefix hardFilters
           (w, seen) = Some (r, (w', seen'))"
  shows "\<exists>ws. w' = w @ ws
           \<and> (\<forall>x \<in> set (finalEntries cfg rootLogical currentLogical hardFilters entries).
                 \<exists>isLast. treeLine e currentFS prefix isLast x \<in> set ws)"
proof -
  from assms have "treeLoop (treeDescend fuel e cfg rootFS rootLogical hardFilters) e currentFS
      currentLogical prefix
      (length (finalEntries cfg rootLogical currentLogical hardFilters entries)) 0
      (finalEntries cfg rootLogical currentLogical hardFilters entries) (w, seen) = Some (w', seen')"
    by (auto simp: writeTree_Suc Let_def simp del: writeTree.simps split: option.splits)
  from treeLoop_lines [OF treeDescend_appendsOnly this] show ?thesis .
qed

lemma finalEntries_member:
  assumes "d \<in> set entries"
    and "treeVisible cfg rootLogical currentLogical hardFilters d"
    and "IsDir d \<or> NoFold cfg
         \<or> length (filter (\<lambda>x. \<not> IsDir x)
              (filter (treeVisible cfg rootLogical currentLogical hardFilters) entries))
            \<le> maxDisplayFiles"
  shows "d \<in> set (finalEntries cfg rootLogical currentLogical hardFilters entries)"
  using assms by (auto simp: finalEntries_def foldFiles_def Let_def)

text \<open>
  On a filesystem with finitely many canonical paths, each descent adds a new canonical
  path to \<^verbatim>\<open>seen\<close>. So \<^verbatim>\<open>writeTree\<close> returns when the fuel exceeds the number of
  canonical paths not yet seen, and the loop of \<^verbatim>\<open>walkFollowSymlinks\<close> returns when the
  fuel covers the work list and the canonical paths not yet seen.
\<close>

lemma card_Diff_insert_less:
  assumes "finite R" and "r \<in> R" and "r \<notin> S"
  shows "card (R - insert r S) < card (R - S)"
proof -
  have "R - insert r S \<subset> R - S" using assms by auto
  then show ?thesis using assms(1) by (intro psubset_card_mono) auto
qed

lemma card_Diff_mono:
  assumes "finite R" and "S \<subseteq> S'"
  shows "card (R - S') \<le> card (R - S)"
  using assms by (intro card_mono) auto

lemma finalEntries_subset:
  "x \<in> set (finalEntries cfg rootLogical currentLogical hardFilters entries)
     \<Longrightarrow> x \<in> set entries \<or> (\<exists>name. x = SimpleDirEntry name)"
  by (auto simp: finalEntries_def foldFiles_def Let_def dest: in_set_takeD in_set_dropD
      split: if_splits)

lemma resolves_Simple: "resolves e d (SimpleDirEntry name)"
  by (simp add: resolves_def followDir_def SimpleDirEntry_def)

lemma treeEntry_total:
  assumes fin: "finite (ran (EvalSymlinks e))"
    and D: "descends D e k"
    and canon: "resolves e c x"
    and bound: "card (ran (EvalSymlinks e) - seen) \<le> k"
  shows "\<exists>w' seen'. treeEntry D e c cl p isLast x (w, seen) = Some (w', seen') \<and> seen \<subseteq> seen'"
proof -
  obtain b pth where fd: "followDir e x (Join c (Name x)) = (b, pth)"
    by (cases "followDir e x (Join c (Name x))")
  show ?thesis
  proof (cases b)
    case False
    then show ?thesis by (simp add: treeEntry.simps fd)
  next
    case True
    then obtain real where ev: "EvalSymlinks e pth = Some real"
      using canon fd by (auto simp: resolves_def)
    show ?thesis
    proof (cases "real \<in> seen")
      case True
      then show ?thesis using \<open>b\<close> by (simp add: treeEntry.simps fd ev)
    next
      case False
      have "real \<in> ran (EvalSymlinks e)" using ev by (auto simp: ran_def)
      then have "card (ran (EvalSymlinks e) - insert real seen) < k"
        using card_Diff_insert_less [OF fin _ False] bound by fastforce
      then obtain w' s' where
        "D pth (Join cl (Name x)) (if isLast then p @ ''    '' else p @ connector)
           (w @ [treeLine e c p isLast x], insert real seen) = Some (w', s')"
        and "insert real seen \<subseteq> s'"
        using D unfolding descends_def by blast
      then show ?thesis using \<open>b\<close> False by (simp add: treeEntry.simps fd ev)
    qed
  qed
qed

lemma treeLoop_total:
  assumes fin: "finite (ran (EvalSymlinks e))"
    and D: "descends D e k"
  shows "\<forall>x \<in> set xs. resolves e c x \<Longrightarrow> card (ran (EvalSymlinks e) - seen) \<le> k
     \<Longrightarrow> \<exists>w' seen'. treeLoop D e c cl p n i xs (w, seen) = Some (w', seen') \<and> seen \<subseteq> seen'"
proof (induction xs arbitrary: i w seen)
  case Nil
  show ?case by simp
next
  case (Cons x xs)
  have rx: "resolves e c x" using Cons.prems(1) by simp
  obtain w1 s1 where
    step: "treeEntry D e c cl p (int i = int n - 1) x (w, seen) = Some (w1, s1)"
    and sub: "seen \<subseteq> s1"
    using treeEntry_total [OF fin D rx Cons.prems(2)] by blast
  have b1: "card (ran (EvalSymlinks e) - s1) \<le> k"
    using card_Diff_mono [OF fin sub] Cons.prems(2) by simp
  have rxs: "\<forall>x \<in> set xs. resolves e c x" using Cons.prems(1) by simp
  obtain w' s' where
    "treeLoop D e c cl p n (Suc i) xs (w1, s1) = Some (w', s')" and "s1 \<subseteq> s'"
    using Cons.IH [OF rxs b1] by blast
  then show ?case using step sub by auto
qed

lemma writeTree_total:
  assumes fin: "finite (ran (EvalSymlinks e))"
    and canon: "canonicalDirs e"
  shows "card (ran (EvalSymlinks e) - seen) < fuel
     \<Longrightarrow> \<exists>r w' seen'. writeTree fuel e cfg rootFS rootLogical currentFS currentLogical prefix
            hardFilters (w, seen) = Some (r, (w', seen')) \<and> seen \<subseteq> seen'"
proof (induction fuel arbitrary: currentFS currentLogical prefix w seen)
  case 0
  then show ?case by simp
next
  case (Suc fuel)
  show ?case
  proof (cases "ReadDir e currentFS")
    case (Inl err)
    then show ?thesis by (simp add: writeTree_Suc del: writeTree.simps)
  next
    case (Inr entries)
    let ?final = "finalEntries cfg rootLogical currentLogical hardFilters entries"
    have D: "descends (treeDescend fuel e cfg rootFS rootLogical hardFilters) e fuel"
      unfolding descends_def
    proof (intro allI impI)
      fix a b c w s
      assume "card (ran (EvalSymlinks e) - s) < fuel"
      from Suc.IH [OF this, of a b c w]
      show "\<exists>w' s'. treeDescend fuel e cfg rootFS rootLogical hardFilters a b c (w, s)
               = Some (w', s') \<and> s \<subseteq> s'"
        by (auto simp: treeDescend_def)
    qed
    have cn: "\<forall>x \<in> set ?final. resolves e currentFS x"
    proof
      fix x assume "x \<in> set ?final"
      from finalEntries_subset [OF this] show "resolves e currentFS x"
        using canon Inr resolves_Simple unfolding canonicalDirs_def by blast
    qed
    have b: "card (ran (EvalSymlinks e) - seen) \<le> fuel" using Suc.prems by simp
    obtain w' seen' where
      "treeLoop (treeDescend fuel e cfg rootFS rootLogical hardFilters) e currentFS currentLogical
         prefix (length ?final) 0 ?final (w, seen) = Some (w', seen')" and "seen \<subseteq> seen'"
      using treeLoop_total [OF fin D cn b] by blast
    then show ?thesis using Inr by (simp add: writeTree_Suc del: writeTree.simps)
  qed
qed

lemma walkEntry_measure:
  assumes fin: "finite (ran (EvalSymlinks e))"
    and canon: "resolves e (fsPath n) x"
    and res: "walkEntry e fn n x (stack, seen, s) = (r, (stack', seen', s'))"
  shows "length stack' + card (ran (EvalSymlinks e) - seen')
           \<le> length stack + card (ran (EvalSymlinks e) - seen)"
proof -
  obtain b pth where fd: "followDir e x (Join (fsPath n) (Name x)) = (b, pth)"
    by (cases "followDir e x (Join (fsPath n) (Name x))")
  have push: "Suc (length stack) + card (ran (EvalSymlinks e) - insert real seen)
                \<le> length stack + card (ran (EvalSymlinks e) - seen)"
    if "EvalSymlinks e pth = Some real" and "real \<notin> seen" for real
  proof -
    have "real \<in> ran (EvalSymlinks e)" using that(1) by (auto simp: ran_def)
    from card_Diff_insert_less [OF fin this that(2)] show ?thesis by simp
  qed
  have nn: "b \<Longrightarrow> EvalSymlinks e pth \<noteq> None" using canon fd by (simp add: resolves_def)
  show ?thesis
    using res push nn
    by (auto simp: walkEntry.simps fd Let_def split: prod.splits option.splits if_splits)
qed

lemma walkEntries_measure:
  assumes fin: "finite (ran (EvalSymlinks e))"
  shows "\<forall>x \<in> set xs. resolves e (fsPath n) x
     \<Longrightarrow> walkEntries e fn n xs (stack, seen, s) = (r, (stack', seen', s'))
     \<Longrightarrow> length stack' + card (ran (EvalSymlinks e) - seen')
           \<le> length stack + card (ran (EvalSymlinks e) - seen)"
proof (induction xs arbitrary: stack seen s)
  case Nil
  then show ?case by simp
next
  case (Cons x xs)
  obtain r1 stack1 seen1 s1 where
    step: "walkEntry e fn n x (stack, seen, s) = (r1, (stack1, seen1, s1))"
    by (metis prod_cases3 surj_pair)
  have rx: "resolves e (fsPath n) x" and rxs: "\<forall>x \<in> set xs. resolves e (fsPath n) x"
    using Cons.prems(1) by simp_all
  have m1: "length stack1 + card (ran (EvalSymlinks e) - seen1)
              \<le> length stack + card (ran (EvalSymlinks e) - seen)"
    using walkEntry_measure [OF fin rx step] .
  show ?case
  proof (cases r1)
    case None
    then have "walkEntries e fn n xs (stack1, seen1, s1) = (r, (stack', seen', s'))"
      using Cons.prems(2) step by simp
    from Cons.IH [OF rxs this] m1 show ?thesis by simp
  next
    case (Some err)
    then show ?thesis using Cons.prems(2) step m1 by simp
  qed
qed

lemma walkLoop_total:
  assumes fin: "finite (ran (EvalSymlinks e))"
    and canon: "canonicalDirs e"
  shows "length stack + card (ran (EvalSymlinks e) - seen) \<le> fuel
     \<Longrightarrow> \<exists>r s'. walkLoop fuel e fn (stack, seen, s) = Some (r, s')"
proof (induction fuel arbitrary: stack seen s)
  case 0
  then show ?case by simp
next
  case (Suc fuel)
  show ?case
  proof (cases stack)
    case Nil
    then show ?thesis by simp
  next
    case (Cons n rest)
    show ?thesis
    proof (cases "ReadDir e (fsPath n)")
      case (Inl err)
      then show ?thesis using Cons by simp
    next
      case (Inr entries)
      obtain r stack' seen' s' where
        res: "walkEntries e fn n entries (rest, seen, s) = (r, (stack', seen', s'))"
        by (metis prod_cases3 surj_pair)
      have cn: "\<forall>x \<in> set entries. resolves e (fsPath n) x"
        using canon Inr unfolding canonicalDirs_def by blast
      have m: "length stack' + card (ran (EvalSymlinks e) - seen') \<le> fuel"
        using walkEntries_measure [OF fin cn res] Suc.prems Cons by simp
      show ?thesis
      proof (cases r)
        case None
        then show ?thesis using Cons Inr res Suc.IH [OF m] by simp
      next
        case (Some err)
        then show ?thesis using Cons Inr res by simp
      qed
    qed
  qed
qed

text \<open>
  Hence the walk of a root, both loops of \<^verbatim>\<open>processDirs\<close> and \<^verbatim>\<open>processDirs\<close> itself
  return when the fuel exceeds the number of canonical paths, symlink cycles or not.
\<close>

lemma walkFollowSymlinks_total:
  assumes "finite (ran (EvalSymlinks e))" and "canonicalDirs e"
    and "card (ran (EvalSymlinks e)) < fuel"
  shows "\<exists>r s'. walkFollowSymlinks fuel e root fn s = Some (r, s')"
  unfolding walkFollowSymlinks_def
  using assms(3) by (intro walkLoop_total [OF assms(1,2)]) simp

lemma treeSection_total:
  assumes "finite (ran (EvalSymlinks e))" and "canonicalDirs e"
    and "card (ran (EvalSymlinks e)) < fuel"
  shows "\<exists>w'. treeSection fuel e cfg hardFilters dirs w = Some w'"
proof (induction dirs arbitrary: w)
  case Nil
  show ?case by simp
next
  case (Cons dir dirs)
  show ?case
  proof (cases "Abs e dir")
    case (Inl err)
    then show ?thesis using Cons.IH by simp
  next
    case (Inr absDir)
    have "card (ran (EvalSymlinks e) - {}) < fuel" using assms(3) by simp
    from writeTree_total [OF assms(1,2) this]
    obtain r w' seen' where
      "writeTree fuel e cfg absDir absDir absDir absDir [] hardFilters
         (w @ [Base absDir @ ''/'' @ [CHR 0x0A]], {}) = Some (r, (w', seen'))"
      by blast
    then show ?thesis using Inr Cons.IH by simp
  qed
qed

lemma contentSection_total:
  assumes "finite (ran (EvalSymlinks e))" and "canonicalDirs e"
    and "card (ran (EvalSymlinks e)) < fuel"
  shows "\<exists>r out'. contentSection fuel e cfg absOut softFilters hardFilters dirs (firstErr, out)
           = Some (r, out')"
proof (induction dirs arbitrary: firstErr out)
  case Nil
  show ?case by simp
next
  case (Cons dir dirs)
  show ?case
  proof (cases "Abs e dir")
    case (Inl err)
    then show ?thesis using Cons.IH by simp
  next
    case (Inr absDir)
    obtain r out1 where
      w: "walkFollowSymlinks fuel e absDir (walkFn e cfg absOut softFilters hardFilters) out
            = Some (r, out1)"
      using walkFollowSymlinks_total
        [OF assms, of absDir "walkFn e cfg absOut softFilters hardFilters" out]
      by blast
    show ?thesis
      using Inr w Cons.IH by (cases r) simp_all
  qed
qed

lemma processDirs_total:
  assumes "finite (ran (EvalSymlinks e))" and "canonicalDirs e"
    and "card (ran (EvalSymlinks e)) < fuel"
  shows "\<exists>r out'. processDirs fuel e cfg dirs softFilters hardFilters out finalOutPath
           = Some (r, out')"
proof (cases "Abs e finalOutPath")
  case (Inl err)
  then show ?thesis by (simp add: processDirs_def)
next
  case (Inr absOut)
  obtain w' where
    t: "treeSection fuel e cfg hardFilters dirs
          (writer (emit [''# Project Structure'' @ [CHR 0x0A, CHR 0x0A],
                         ''```text'' @ [CHR 0x0A]] out)) = Some w'"
    using treeSection_total [OF assms] by blast
  show ?thesis
    using Inr t contentSection_total [OF assms]
    by (simp add: processDirs_def Let_def)
qed

text \<open>The callback on an entry that the soft tier matches, and the walker after \<^verbatim>\<open>SkipDir\<close>.\<close>

lemma walkFn_soft:
  assumes "fst (checkFilter relSlash softFilters)"
    and "\<not> fst (checkFilter relSlash hardFilters)"
    and "\<not> isJunk cfg (Name d)"
    and "fullPath \<noteq> absOut"
    and "relSlash = (if ToSlash logicalRel = ''.'' then [] else ToSlash logicalRel)"
  shows "walkFn e cfg absOut softFilters hardFilters logicalRel fullPath d out
           = (if IsDir d then Some SkipDir else None,
              say ((if IsDir d then SkipSoftDir else SkipSoftContent)
                     (snd (checkFilter relSlash softFilters)) relSlash) out)"
proof -
  have ne: "relSlash \<noteq> []" using assms(1) by (auto simp: checkFilter_def)
  show ?thesis
    using assms ne
    by (auto simp: walkFn_def Let_def split: prod.splits if_splits)
qed

lemma walkEntry_skip:
  assumes "followDir e d (Join (fsPath n) (Name d)) = (childIsDir, childFSPath)"
    and "fn (if rel n \<noteq> [] then Join (rel n) (Name d) else Name d) childFSPath d s = (Some SkipDir, s')"
  shows "walkEntry e fn n d (stack, seen, s) = (None, (stack, seen, s'))"
  using assms by (simp add: walkEntry.simps Let_def)

subsection \<open>The soft tier\<close>

lemma writeTree_renders:
  assumes "finite (ran (EvalSymlinks e))" and "canonicalDirs e"
    and "card (ran (EvalSymlinks e) - seen) < fuel"
    and "ReadDir e currentFS = Inr entries"
    and "d \<in> set (finalEntries cfg rootLogical currentLogical hardFilters entries)"
  shows "\<exists>r w' seen' isLast.
           writeTree fuel e cfg rootFS rootLogical currentFS currentLogical prefix hardFilters
             (w, seen) = Some (r, (w', seen'))
           \<and> treeLine e currentFS prefix isLast d \<in> set (drop (length w) w')"
proof -
  obtain k where fuel: "fuel = Suc k" using assms(3) by (cases fuel) auto
  obtain r w' seen' where
    wt: "writeTree fuel e cfg rootFS rootLogical currentFS currentLogical prefix hardFilters
           (w, seen) = Some (r, (w', seen'))"
    using writeTree_total [OF assms(1,2,3)] by blast
  obtain ws where w': "w' = w @ ws"
    and all: "\<forall>x \<in> set (finalEntries cfg rootLogical currentLogical hardFilters entries).
                 \<exists>isLast. treeLine e currentFS prefix isLast x \<in> set ws"
    using writeTree_lines [OF assms(4) wt [unfolded fuel]] by blast
  obtain isLast where "treeLine e currentFS prefix isLast d \<in> set ws"
    using all assms(5) by blast
  then have "treeLine e currentFS prefix isLast d \<in> set (drop (length w) w')"
    using w' by simp
  then show ?thesis using wt by blast
qed

text \<open>Facts about the example filesystems: finitely many canonical paths, all resolvable.\<close>

lemma tableEnv_ran:
  "ran (EvalSymlinks (tableEnv dirs links files))
     \<subseteq> snd ` set links \<union> fst ` set dirs \<union> fst ` set files"
proof
  fix r assume "r \<in> ran (EvalSymlinks (tableEnv dirs links files))"
  then obtain p where ev: "EvalSymlinks (tableEnv dirs links files) p = Some r"
    by (auto simp: ran_def)
  let ?q = "case map_of links p of Some t \<Rightarrow> t | None \<Rightarrow> p"
  have r: "r = ?q" and ex: "map_of dirs ?q \<noteq> None \<or> map_of files ?q \<noteq> None"
    using ev by (auto simp: tableEnv_def Let_def split: option.splits)
  from ex have "?q \<in> fst ` set dirs \<union> fst ` set files"
    by (auto dest: map_of_SomeD intro: rev_image_eqI)
  then show "r \<in> snd ` set links \<union> fst ` set dirs \<union> fst ` set files"
    using r by simp
qed

lemma tableEnv_finite:
  "finite (ran (EvalSymlinks (tableEnv dirs links files)))"
  by (rule finite_subset [OF tableEnv_ran]) simp

lemma tableEnv_card:
  "card (ran (EvalSymlinks (tableEnv dirs links files)) - S)
     \<le> length links + length dirs + length files"
proof -
  let ?U = "snd ` set links \<union> fst ` set dirs \<union> fst ` set files"
  have sub: "ran (EvalSymlinks (tableEnv dirs links files)) - S \<subseteq> ?U"
    using tableEnv_ran [of dirs links files] by blast
  have "card (ran (EvalSymlinks (tableEnv dirs links files)) - S) \<le> card ?U"
    by (rule card_mono [OF _ sub]) simp
  also have "\<dots> \<le> card (snd ` set links) + card (fst ` set dirs) + card (fst ` set files)"
    by (meson add_le_mono1 card_Un_le le_trans)
  also have "\<dots> \<le> length links + length dirs + length files"
    by (meson add_mono card_image_le card_length le_trans List.finite_set)
  finally show ?thesis .
qed

lemma softEnv_canonicalDirs: "canonicalDirs softEnv"
proof -
  have rd: "(d = ''/r'' \<and> es = [fileEntry ''dir2txt.go'', dirEntry ''docs'', fileEntry ''main.go''])
         \<or> (d = ''/r/docs'' \<and> es = [fileEntry ''guide.md''])"
    if "ReadDir softEnv d = Inr es" for d es
    using that by (auto simp: softEnv_def tableEnv_def split: if_splits)
  have "resolves softEnv ''/r'' (fileEntry ''dir2txt.go'')"
    "resolves softEnv ''/r'' (dirEntry ''docs'')"
    "resolves softEnv ''/r'' (fileEntry ''main.go'')"
    "resolves softEnv ''/r/docs'' (fileEntry ''guide.md'')"
    by code_simp+
  then show ?thesis
    unfolding canonicalDirs_def using rd by fastforce
qed

text \<open>
  Claim C2, as the program has it. Take an entry \<open>d\<close> whose logical path \<open>relSlash\<close> the
  soft rules match (\<^verbatim>\<open>checkFilter\<close> answers \<^verbatim>\<open>true\<close>) and the hard rules do not, and
  whose name is not junk.

  \<^item> Tree pass: if the name is not that of the output document, the entry passes the
    tree filter, in which the soft rules have no part. If moreover it is not hidden by
    folding (it is a directory, or folding is off, or the directory has at most 24
    visible files), then on a filesystem with finitely many canonical paths and enough
    fuel \<^verbatim>\<open>writeTree\<close> returns and has written the line of the entry.
  \<^item> Content pass: if the path is not the output document, the callback writes nothing
    to the document; it prints the notice of the soft filter and returns
    \<^verbatim>\<open>filepath.SkipDir\<close> for an entry whose \<^verbatim>\<open>IsDir()\<close> is true and \<^verbatim>\<open>nil\<close> otherwise.
  \<^item> For an entry whose \<^verbatim>\<open>IsDir()\<close> is true the walker then leaves its work list and
    \<^verbatim>\<open>seen\<close> as they are: nothing below the directory is visited through it.
\<close>

theorem soft_tier_tree_only:
  assumes "fst (checkFilter relSlash softFilters)"
    and "\<not> fst (checkFilter relSlash hardFilters)"
    and "\<not> isJunk cfg (Name d)"
  shows "(Name d \<noteq> OutputFile cfg
          \<and> relSlash = ToSlash (case Rel rootLogical (Join currentLogical (Name d)) of
                                  Some r \<Rightarrow> r | None \<Rightarrow> [])
          \<longrightarrow> treeVisible cfg rootLogical currentLogical hardFilters d
              \<and> (d \<in> set entries
                  \<and> (IsDir d \<or> NoFold cfg
                      \<or> length (filter (\<lambda>x. \<not> IsDir x)
                           (filter (treeVisible cfg rootLogical currentLogical hardFilters) entries))
                         \<le> maxDisplayFiles)
                  \<and> ReadDir e currentFS = Inr entries
                  \<and> finite (ran (EvalSymlinks e)) \<and> canonicalDirs e
                  \<and> card (ran (EvalSymlinks e) - seen) < fuel
                  \<longrightarrow> (\<exists>r w' seen' isLast.
                         writeTree fuel e cfg rootFS rootLogical currentFS currentLogical prefix
                           hardFilters (w, seen) = Some (r, (w', seen'))
                         \<and> treeLine e currentFS prefix isLast d \<in> set (drop (length w) w'))))
       \<and> (fullPath \<noteq> absOut
          \<and> relSlash = (if ToSlash logicalRel = ''.'' then [] else ToSlash logicalRel)
          \<longrightarrow> walkFn e cfg absOut softFilters hardFilters logicalRel fullPath d out
                = (if IsDir d then Some SkipDir else None,
                   say ((if IsDir d then SkipSoftDir else SkipSoftContent)
                          (snd (checkFilter relSlash softFilters)) relSlash) out)
              \<and> writer (snd (walkFn e cfg absOut softFilters hardFilters logicalRel fullPath d out))
                  = writer out)
       \<and> (IsDir d
          \<and> snd (followDir e d (Join (fsPath n) (Name d))) \<noteq> absOut
          \<and> relSlash = (if ToSlash (if rel n \<noteq> [] then Join (rel n) (Name d) else Name d) = ''.''
                        then []
                        else ToSlash (if rel n \<noteq> [] then Join (rel n) (Name d) else Name d))
          \<longrightarrow> walkEntry e (walkFn e cfg absOut softFilters hardFilters) n d (stack, visited, out)
                = (None, (stack, visited,
                     say (SkipSoftDir (snd (checkFilter relSlash softFilters)) relSlash) out)))"
proof (intro conjI impI)
  assume a: "Name d \<noteq> OutputFile cfg
          \<and> relSlash = ToSlash (case Rel rootLogical (Join currentLogical (Name d)) of
                                  Some r \<Rightarrow> r | None \<Rightarrow> [])"
  show vis: "treeVisible cfg rootLogical currentLogical hardFilters d"
    using a assms(2,3) by (auto simp: treeVisible_def Let_def)
  assume b: "d \<in> set entries
      \<and> (IsDir d \<or> NoFold cfg
          \<or> length (filter (\<lambda>x. \<not> IsDir x)
               (filter (treeVisible cfg rootLogical currentLogical hardFilters) entries))
             \<le> maxDisplayFiles)
      \<and> ReadDir e currentFS = Inr entries
      \<and> finite (ran (EvalSymlinks e)) \<and> canonicalDirs e
      \<and> card (ran (EvalSymlinks e) - seen) < fuel"
  have "d \<in> set (finalEntries cfg rootLogical currentLogical hardFilters entries)"
    using finalEntries_member [OF _ vis] b by blast
  then show "\<exists>r w' seen' isLast.
       writeTree fuel e cfg rootFS rootLogical currentFS currentLogical prefix
         hardFilters (w, seen) = Some (r, (w', seen'))
       \<and> treeLine e currentFS prefix isLast d \<in> set (drop (length w) w')"
    using writeTree_renders b by blast
next
  assume c: "fullPath \<noteq> absOut
      \<and> relSlash = (if ToSlash logicalRel = ''.'' then [] else ToSlash logicalRel)"
  show eq: "walkFn e cfg absOut softFilters hardFilters logicalRel fullPath d out
      = (if IsDir d then Some SkipDir else None,
         say ((if IsDir d then SkipSoftDir else SkipSoftContent)
                (snd (checkFilter relSlash softFilters)) relSlash) out)"
    using walkFn_soft [OF assms] c by blast
  show "writer (snd (walkFn e cfg absOut softFilters hardFilters logicalRel fullPath d out))
      = writer out"
    unfolding eq by (simp add: say_def)
next
  assume d: "IsDir d
      \<and> snd (followDir e d (Join (fsPath n) (Name d))) \<noteq> absOut
      \<and> relSlash = (if ToSlash (if rel n \<noteq> [] then Join (rel n) (Name d) else Name d) = ''.''
                    then []
                    else ToSlash (if rel n \<noteq> [] then Join (rel n) (Name d) else Name d))"
  obtain b pth where fd: "followDir e d (Join (fsPath n) (Name d)) = (b, pth)"
    by (cases "followDir e d (Join (fsPath n) (Name d))")
  have "walkFn e cfg absOut softFilters hardFilters
          (if rel n \<noteq> [] then Join (rel n) (Name d) else Name d) pth d out
      = (Some SkipDir, say (SkipSoftDir (snd (checkFilter relSlash softFilters)) relSlash) out)"
    using walkFn_soft [OF assms, of pth absOut "if rel n \<noteq> [] then Join (rel n) (Name d) else Name d" e out]
      d fd by simp
  from walkEntry_skip [of e d n b pth "walkFn e cfg absOut softFilters hardFilters" out, OF fd this]
  show "walkEntry e (walkFn e cfg absOut softFilters hardFilters) n d (stack, visited, out)
      = (None, (stack, visited,
           say (SkipSoftDir (snd (checkFilter relSlash softFilters)) relSlash) out))" .
qed

theorem soft_tier_tree_only_witness:
  "(\<exists>r w' seen' isLast.
      writeTree 10 softEnv (mainConfig ''/out/r_context.md'' False) ''/r'' ''/r'' ''/r'' ''/r'' []
        [] ([], {}) = Some (r, (w', seen'))
      \<and> treeLine softEnv ''/r'' [] isLast (fileEntry ''main.go'') \<in> set (drop (length ([] :: string list)) w'))
   \<and> walkFn softEnv (mainConfig ''/out/r_context.md'' False) ''/out/r_context.md''
        [''*.go'', ''docs''] [] ''main.go'' ''/r/main.go'' (fileEntry ''main.go'') noOutput
      = (None, say (SkipSoftContent ''*.go'' ''main.go'') noOutput)
   \<and> walkEntry softEnv
        (walkFn softEnv (mainConfig ''/out/r_context.md'' False) ''/out/r_context.md''
           [''*.go'', ''docs''] [])
        \<lparr>fsPath = ''/r'', rel = []\<rparr> (dirEntry ''docs'') ([], {}, noOutput)
      = (None, ([], {}, say (SkipSoftDir ''docs'' ''docs'') noOutput))"
proof -
  let ?cfg = "mainConfig ''/out/r_context.md'' False"
  let ?soft = "[''*.go'', ''docs'']"
  let ?entries = "[fileEntry ''dir2txt.go'', dirEntry ''docs'', fileEntry ''main.go'']"
  let ?n = "\<lparr>fsPath = ''/r'', rel = []\<rparr>"
  have f1: "fst (checkFilter ''main.go'' ?soft)" and f2: "\<not> fst (checkFilter ''main.go'' [])"
    and f3: "\<not> isJunk ?cfg (Name (fileEntry ''main.go''))"
    by code_simp+
  have d1: "fst (checkFilter ''docs'' ?soft)" and d2: "\<not> fst (checkFilter ''docs'' [])"
    and d3: "\<not> isJunk ?cfg (Name (dirEntry ''docs''))"
    by code_simp+
  have t1: "Name (fileEntry ''main.go'') \<noteq> OutputFile ?cfg
      \<and> ''main.go'' = ToSlash (case Rel ''/r'' (Join ''/r'' (Name (fileEntry ''main.go''))) of
                                  Some r \<Rightarrow> r | None \<Rightarrow> [])"
    by code_simp
  have rd: "ReadDir softEnv ''/r'' = Inr ?entries" by code_simp
  have few: "length (filter (\<lambda>x. \<not> IsDir x) (filter (treeVisible ?cfg ''/r'' ''/r'' []) ?entries))
      \<le> maxDisplayFiles"
    by code_simp
  have fin: "finite (ran (EvalSymlinks softEnv))"
    unfolding softEnv_def by (rule tableEnv_finite)
  have "card (ran (EvalSymlinks softEnv) - {})
      \<le> length ([] :: (string \<times> string) list)
        + length [(''/r'', ?entries), (''/r/docs'', [fileEntry ''guide.md''])]
        + length [(''/r/dir2txt.go'', ''x\<newline>''), (''/r/main.go'', ''m\<newline>''),
                  (''/r/docs/guide.md'', ''g\<newline>'')]"
    unfolding softEnv_def by (rule tableEnv_card)
  then have card: "card (ran (EvalSymlinks softEnv) - {}) < 10" by simp
  have t2: "fileEntry ''main.go'' \<in> set ?entries
      \<and> (IsDir (fileEntry ''main.go'') \<or> NoFold ?cfg
          \<or> length (filter (\<lambda>x. \<not> IsDir x) (filter (treeVisible ?cfg ''/r'' ''/r'' []) ?entries))
             \<le> maxDisplayFiles)
      \<and> ReadDir softEnv ''/r'' = Inr ?entries
      \<and> finite (ran (EvalSymlinks softEnv)) \<and> canonicalDirs softEnv
      \<and> card (ran (EvalSymlinks softEnv) - {}) < 10"
    using rd few fin card softEnv_canonicalDirs by simp
  have c1: "''/r/main.go'' \<noteq> ''/out/r_context.md''
      \<and> ''main.go'' = (if ToSlash ''main.go'' = ''.'' then [] else ToSlash ''main.go'')"
    by code_simp
  have p1: "IsDir (dirEntry ''docs'')
      \<and> snd (followDir softEnv (dirEntry ''docs'') (Join (fsPath ?n) (Name (dirEntry ''docs''))))
          \<noteq> ''/out/r_context.md''
      \<and> ''docs'' = (if ToSlash (if rel ?n \<noteq> [] then Join (rel ?n) (Name (dirEntry ''docs''))
                                 else Name (dirEntry ''docs'')) = ''.''
                    then []
                    else ToSlash (if rel ?n \<noteq> [] then Join (rel ?n) (Name (dirEntry ''docs''))
                                  else Name (dirEntry ''docs'')))"
    by code_simp
  have s1: "snd (checkFilter ''main.go'' ?soft) = ''*.go''"
    and s2: "snd (checkFilter ''docs'' ?soft) = ''docs''"
    and nd: "\<not> IsDir (fileEntry ''main.go'')"
    by code_simp+
  have tree: "\<exists>r w' seen' isLast.
      writeTree 10 softEnv ?cfg ''/r'' ''/r'' ''/r'' ''/r'' [] [] ([], {}) = Some (r, (w', seen'))
      \<and> treeLine softEnv ''/r'' [] isLast (fileEntry ''main.go'') \<in> set (drop (length ([] :: string list)) w')"
    by (rule soft_tier_tree_only [OF f1 f2 f3, THEN conjunct1, THEN mp, OF t1, THEN conjunct2,
          THEN mp, OF t2])
  have content: "walkFn softEnv ?cfg ''/out/r_context.md'' ?soft [] ''main.go'' ''/r/main.go''
        (fileEntry ''main.go'') noOutput
      = (if IsDir (fileEntry ''main.go'') then Some SkipDir else None,
         say ((if IsDir (fileEntry ''main.go'') then SkipSoftDir else SkipSoftContent)
                (snd (checkFilter ''main.go'' ?soft)) ''main.go'') noOutput)"
    by (rule soft_tier_tree_only [OF f1 f2 f3, THEN conjunct2, THEN conjunct1, THEN mp, OF c1,
          THEN conjunct1])
  have prune: "walkEntry softEnv (walkFn softEnv ?cfg ''/out/r_context.md'' ?soft []) ?n
        (dirEntry ''docs'') ([], {}, noOutput)
      = (None, ([], {}, say (SkipSoftDir (snd (checkFilter ''docs'' ?soft)) ''docs'') noOutput))"
    by (rule soft_tier_tree_only [OF d1 d2 d3, THEN conjunct2, THEN conjunct2, THEN mp, OF p1])
  show ?thesis
    using tree content prune by (simp only: s1 s2 nd if_False simp_thms)
qed

text \<open>
  The file \<^verbatim>\<open>dir2txt.go\<close> is matched by the soft rule \<^verbatim>\<open>*.go\<close> and by no hard rule, but
  its name is in \<^verbatim>\<open>IgnoredFiles\<close>: the tree of \<^verbatim>\<open>/r\<close> has no line for it.
\<close>

theorem soft_tier_tree_only_counterexample:
  "ReadDir softEnv ''/r'' = Inr [fileEntry ''dir2txt.go'', dirEntry ''docs'', fileEntry ''main.go'']
   \<and> fst (checkFilter ''dir2txt.go'' [''*.go'', ''docs''])
   \<and> \<not> fst (checkFilter ''dir2txt.go'' [])
   \<and> writeTree 5 softEnv (mainConfig ''/out/r_context.md'' False) ''/r'' ''/r'' ''/r'' ''/r'' [] []
        ([], {})
      = Some (None,
          ([markerMid @ ''docs\<newline>'',
            connector @ markerLast @ ''guide.md\<newline>'',
            markerLast @ ''main.go\<newline>''],
           {''/r/docs''}))"
  by code_simp

subsection \<open>The two passes of the aggregator\<close>

text \<open>
  Claim C10. The tree pass drops every entry whose name is \<^verbatim>\<open>config.OutputFile\<close>, in
  whatever directory of whatever root it is read; \<^verbatim>\<open>main\<close> sets that field to the base
  name of the output path. The content pass compares the full path of the entry with
  the absolute output path: the entry with that path is skipped, and for every other
  path the callback does not depend on the output path at all.
\<close>

theorem output_document_exclusion:
  "(Name entry = OutputFile cfg \<longrightarrow>
      \<not> treeVisible cfg rootLogical currentLogical hardFilters entry
      \<and> entry \<notin> set (filter (treeVisible cfg rootLogical currentLogical hardFilters) entries))
   \<and> (fullPath = absOut \<longrightarrow>
        walkFn e cfg absOut softFilters hardFilters logicalRel fullPath d out
          = (if IsDir d then Some SkipDir else None, out))
   \<and> (fullPath \<noteq> absOut \<and> fullPath \<noteq> absOut' \<longrightarrow>
        walkFn e cfg absOut softFilters hardFilters logicalRel fullPath d out
          = walkFn e cfg absOut' softFilters hardFilters logicalRel fullPath d out)
   \<and> OutputFile (mainConfig finalOutPath noFold) = Base finalOutPath"
  by (simp add: treeVisible_def walkFn_def mainConfig_def Let_def)

theorem output_document_exclusion_witness:
  "\<not> treeVisible (mainConfig ''/r/out.md'' False) ''/r'' ''/r/sub'' [] (fileEntry ''out.md'')
   \<and> walkFn outEnv (mainConfig ''/r/out.md'' False) ''/r/out.md'' [] [] ''out.md'' ''/r/out.md''
         (fileEntry ''out.md'') noOutput = (None, noOutput)
   \<and> walkFn outEnv (mainConfig ''/r/out.md'' False) ''/r/out.md'' [] [] ''sub/out.md''
         ''/r/sub/out.md'' (fileEntry ''out.md'') noOutput
       = (None, \<lparr>writer = [''## File: /r/sub/out.md\<newline>\<newline>'', ''```md\<newline>'', ''other\<newline>'',
                             ''```\<newline>\<newline>'', ''---\<newline>\<newline>''],
                  console = [Processing ''/r/sub/out.md'']\<rparr>)"
proof -
  let ?cfg = "mainConfig ''/r/out.md'' False"
  have n: "Name (fileEntry ''out.md'') = OutputFile ?cfg" by code_simp
  have d: "''/r/sub/out.md'' \<noteq> ''/r/out.md'' \<and> ''/r/sub/out.md'' \<noteq> ''/nowhere''" by simp
  have f: "\<not> IsDir (fileEntry ''out.md'')" by (simp add: fileEntry_def)
  have other: "walkFn outEnv ?cfg ''/nowhere'' [] [] ''sub/out.md''
         ''/r/sub/out.md'' (fileEntry ''out.md'') noOutput
       = (None, \<lparr>writer = [''## File: /r/sub/out.md\<newline>\<newline>'', ''```md\<newline>'', ''other\<newline>'',
                             ''```\<newline>\<newline>'', ''---\<newline>\<newline>''],
                  console = [Processing ''/r/sub/out.md'']\<rparr>)"
    by code_simp
  have "\<not> treeVisible ?cfg ''/r'' ''/r/sub'' [] (fileEntry ''out.md'')"
    by (rule conjunct1
        [OF output_document_exclusion [THEN conjunct1, THEN mp, OF n, of "''/r''" "''/r/sub''" "[]" "[]"]])
  moreover have "walkFn outEnv ?cfg ''/r/out.md'' [] [] ''out.md'' ''/r/out.md''
         (fileEntry ''out.md'') noOutput = (None, noOutput)"
    using output_document_exclusion [THEN conjunct2, THEN conjunct1, THEN mp, OF refl,
        of outEnv ?cfg "''/r/out.md''" "[]" "[]" "''out.md''" "fileEntry ''out.md''" noOutput] f
    by simp
  moreover have "walkFn outEnv ?cfg ''/r/out.md'' [] [] ''sub/out.md''
         ''/r/sub/out.md'' (fileEntry ''out.md'') noOutput
       = walkFn outEnv ?cfg ''/nowhere'' [] [] ''sub/out.md''
         ''/r/sub/out.md'' (fileEntry ''out.md'') noOutput"
    by (rule output_document_exclusion [THEN conjunct2, THEN conjunct2, THEN conjunct1, THEN mp, OF d])
  ultimately show ?thesis by (simp only: other simp_thms)
qed

text \<open>
  Claim C3, on a root that holds a link to itself. Both traversals return (in general:
  \<open>writeTree_total\<close>, \<open>walkFollowSymlinks_total\<close>), but a canonical directory can be
  read twice. The set \<^verbatim>\<open>seen\<close> starts empty and the root is not recorded in it, so
  the walk reads the root a second time through the link: the callback is called for
  the entries of \<^verbatim>\<open>/r\<close> twice, the tree shows them twice, and the content of
  \<^verbatim>\<open>/r/a.txt\<close> is written twice.
\<close>

theorem root_descended_twice:
  "walkFollowSymlinks 5 loopEnv ''/r''
      (\<lambda>logicalRel fullPath d visited. (None, visited @ [(logicalRel, fullPath)])) []
     = Some (None, [(''a.txt'', ''/r/a.txt''), (''loop'', ''/r''),
                    (''loop/a.txt'', ''/r/a.txt''), (''loop/loop'', ''/r'')])
   \<and> writeTree 5 loopEnv (mainConfig ''/out/r_context.md'' False) ''/r'' ''/r'' ''/r'' ''/r'' [] []
        ([], {})
     = Some (None,
         ([markerMid @ ''a.txt\<newline>'',
           markerLast @ ''loop -> /r\<newline>'',
           ''    '' @ markerMid @ ''a.txt\<newline>'',
           ''    '' @ markerLast @ ''loop -> /r\<newline>''],
          {''/r''}))
   \<and> map_option (writer \<circ> snd)
        (walkFollowSymlinks 5 loopEnv ''/r''
           (walkFn loopEnv (mainConfig ''/out/r_context.md'' False) ''/out/r_context.md'' [] [])
           noOutput)
     = Some [''## File: /r/a.txt\<newline>\<newline>'', ''```txt\<newline>'', ''hi\<newline>'', ''```\<newline>\<newline>'', ''---\<newline>\<newline>'',
             ''## File: /r/a.txt\<newline>\<newline>'', ''```txt\<newline>'', ''hi\<newline>'', ''```\<newline>\<newline>'', ''---\<newline>\<newline>'']"
  by code_simp

text \<open>
  The hidden-name rule, for one entry: a name that starts with a dot is junk unless it
  is \<^verbatim>\<open>.\<close>, \<^verbatim>\<open>.env\<close> or \<^verbatim>\<open>.gitignore\<close>, whatever the configuration and the filter
  rules are. A junk entry fails the tree filter; the callback of the content pass
  writes nothing for it and returns \<^verbatim>\<open>filepath.SkipDir\<close> when its \<^verbatim>\<open>IsDir()\<close> is true,
  and then the walker does not push it.
\<close>

lemma hidden_name_isJunk:
  assumes "HasPrefix name ''.''" and "name \<noteq> ''.''"
    and "name \<noteq> ''.env''" and "name \<noteq> ''.gitignore''"
  shows "isJunk cfg name"
  using assms by (simp add: isJunk_def)

lemma kept_dot_names: "\<not> isJunk cfg ''.env'' \<and> \<not> isJunk cfg ''.gitignore''"
  by (simp add: isJunk_def)

lemma junk_entry_excluded:
  assumes "isJunk cfg (Name d)"
  shows "\<not> treeVisible cfg rootLogical currentLogical hardFilters d
       \<and> fst (walkFn e cfg absOut softFilters hardFilters logicalRel fullPath d out)
           = (if IsDir d then Some SkipDir else None)
       \<and> snd (walkFn e cfg absOut softFilters hardFilters logicalRel fullPath d out) = out
       \<and> (IsDir d \<longrightarrow>
            walkEntry e (walkFn e cfg absOut softFilters hardFilters) n d (stack, visited, out)
              = (None, (stack, visited, out)))"
proof -
  have w: "walkFn e cfg absOut softFilters hardFilters l f d out
             = (if IsDir d then Some SkipDir else None, out)" for l f
    using assms by (simp add: walkFn_def Let_def)
  obtain b pth where fd: "followDir e d (Join (fsPath n) (Name d)) = (b, pth)"
    by (cases "followDir e d (Join (fsPath n) (Name d))")
  have "IsDir d \<Longrightarrow>
      walkEntry e (walkFn e cfg absOut softFilters hardFilters) n d (stack, visited, out)
        = (None, (stack, visited, out))"
    by (simp add: walkEntry.simps fd w)
  then show ?thesis using assms w by (simp add: treeVisible_def Let_def)
qed

text \<open>
  Claim C9, on a root with a hidden link to a directory. The tree pass hides the link
  and everything below it. In the content pass the callback returns \<^verbatim>\<open>nil\<close> for the
  link (its \<^verbatim>\<open>IsDir()\<close> is false), the walker follows the link all the same, and the
  file \<^verbatim>\<open>/ext/b.txt\<close> below it gets a content block.
\<close>

theorem hidden_symlink_not_pruned:
  "isJunk (mainConfig ''/out/r_context.md'' False) ''.cfg''
   \<and> writeTree 5 hiddenLinkEnv (mainConfig ''/out/r_context.md'' False) ''/r'' ''/r'' ''/r'' ''/r''
        [] [] ([], {})
     = Some (None, ([markerLast @ ''a.txt\<newline>''], {}))
   \<and> walkFollowSymlinks 5 hiddenLinkEnv ''/r''
        (walkFn hiddenLinkEnv (mainConfig ''/out/r_context.md'' False) ''/out/r_context.md'' [] [])
        noOutput
     = Some (None,
         \<lparr>writer = [''## File: /r/a.txt\<newline>\<newline>'', ''```txt\<newline>'', ''A\<newline>'', ''```\<newline>\<newline>'', ''---\<newline>\<newline>'',
                    ''## File: /ext/b.txt\<newline>\<newline>'', ''```txt\<newline>'', ''B\<newline>'', ''```\<newline>\<newline>'', ''---\<newline>\<newline>''],
          console = [Processing ''/r/a.txt'', Processing ''/ext/b.txt'']\<rparr>)"
  by code_simp


end
